theory Spec2Isabelle
  imports
    Main
    "HOL-Library.Multiset"
    "HOL-Library.Char_ord"
    "HOL-Library.List_Lexorder"
    "HOL-Library.Extended_Nat"
begin

section \<open>Data model\<close>

text \<open>
  A state and a symbol are JavaScript strings, here lists of code units below 256. A grid
  cell holds a state or \<open>null\<close> (\<open>None\<close>); a grid is an array of rows. The transition
  table is the object built by \<open>createTransitions\<close>: source state, then symbol key, then
  the array of destinations; it is kept as an association list in insertion order, each
  key occurring once. \<open>statePositions\<close> is the object from state to its \<open>[row, col]\<close>
  pair.

  Objects are read as finite maps over their own keys. A state or a symbol key that is
  the name of a property every object inherits (\<open>constructor\<close>, \<open>toString\<close>,
  \<open>__proto__\<close> and the like) is outside the model: for such a name the lookups
  \<open>obj[k]\<close> and \<open>k in obj\<close> of the source reach the prototype.
\<close>

type_synonym cell = "string option"
type_synonym grid = "cell list list"
type_synonym transitions = "(string \<times> (string \<times> string list) list) list"
type_synonym positions = "string \<Rightarrow> (nat \<times> nat) option"


section \<open>Strings and objects of the host language\<close>

text \<open>
  \<open>String.prototype.trim\<close> strips white space at both ends, \<open>split\<close> cuts at every
  separator and always returns at least one piece, \<open>join\<close> puts the separator between
  the pieces. A property assignment \<open>obj[k] = v\<close> replaces the value of an existing key
  in place and appends a new key at the end; the two loops that enumerate keys
  (\<open>calculateTransitionCost\<close>, \<open>checkTransition\<close>) do not depend on the order, the
  first summing and the second sorting what it collects.
\<close>

definition isWhiteSpace :: "char \<Rightarrow> bool" where
  "isWhiteSpace c = (c \<in> set [CHR 0x20, CHR 0x09, CHR 0x0A, CHR 0x0B, CHR 0x0C, CHR 0x0D, CHR 0xA0])"

definition jsTrim :: "string \<Rightarrow> string" where
  "jsTrim s = rev (dropWhile isWhiteSpace (rev (dropWhile isWhiteSpace s)))"

fun splitWhere :: "(char \<Rightarrow> bool) \<Rightarrow> string \<Rightarrow> string list" where
  "splitWhere isSep [] = [[]]"
| "splitWhere isSep (c # cs) =
     (if isSep c then [] # splitWhere isSep cs
      else (case splitWhere isSep cs of
              [] \<Rightarrow> [[c]]
            | p # ps \<Rightarrow> (c # p) # ps))"

definition splitOn :: "char \<Rightarrow> string \<Rightarrow> string list" where
  "splitOn sep s = splitWhere (\<lambda>c. c = sep) s"

fun joinWith :: "string \<Rightarrow> string list \<Rightarrow> string" where
  "joinWith sep [] = []"
| "joinWith sep [x] = x"
| "joinWith sep (x # y # ys) = x @ sep @ joinWith sep (y # ys)"

fun setKey :: "'k \<Rightarrow> 'v \<Rightarrow> ('k \<times> 'v) list \<Rightarrow> ('k \<times> 'v) list" where
  "setKey k v [] = [(k, v)]"
| "setKey k v (p # ps) = (if fst p = k then (k, v) # ps else p # setKey k v ps)"

text \<open>The assignment \<open>arr[i][j] = v\<close> on an array of arrays, for indices in range.\<close>

definition setCell :: "'a list list \<Rightarrow> nat \<Rightarrow> nat \<Rightarrow> 'a \<Rightarrow> 'a list list" where
  "setCell arr i j v = arr[i := (arr ! i)[j := v]]"

datatype jsError = TypeError


section \<open>Layout search\<close>

function getPermutations :: "'a list \<Rightarrow> 'a list list" where
  "getPermutations arr =
     (if arr = [] then [[]]
      else concat (map (\<lambda>i. map (\<lambda>p. arr ! i # p)
                                  (getPermutations (take i arr @ drop (Suc i) arr)))
                       [0..<length arr]))"
  by pat_completeness auto
termination
  by (relation "measure length") auto

declare getPermutations.simps [simp del]

definition getPossibleGridSizes :: "nat \<Rightarrow> (nat \<times> nat) list" where
  "getPossibleGridSizes n =
     concat (map (\<lambda>rows. concat (map (\<lambda>cols.
        if rows * cols = n \<or> rows * cols = n + 1 then [(rows, cols)] else [])
        [1..<Suc n])) [1..<Suc n])"

definition absDiff :: "nat \<Rightarrow> nat \<Rightarrow> nat" where
  "absDiff a b = nat \<bar>int a - int b\<bar>"

definition pairCost :: "positions \<Rightarrow> string \<Rightarrow> string \<Rightarrow> nat" where
  "pairCost statePositions fromState toState =
     (case statePositions fromState of
        None \<Rightarrow> 0
      | Some (x1, y1) \<Rightarrow>
          (case statePositions toState of
             None \<Rightarrow> 0
           | Some (x2, y2) \<Rightarrow> absDiff x1 x2 + absDiff y1 y2))"

definition calculateTransitionCost :: "positions \<Rightarrow> transitions \<Rightarrow> nat" where
  "calculateTransitionCost statePositions transitions =
     sum_list (map (\<lambda>(fromState, bySymbol).
       sum_list (map (\<lambda>(symbol, dests).
         sum_list (map (pairCost statePositions fromState) dests)) bySymbol)) transitions)"

definition emptyGrid :: "nat \<Rightarrow> nat \<Rightarrow> grid" where
  "emptyGrid rows cols = replicate rows (replicate cols None)"

text \<open>One iteration of the row-wise placing loop, for index \<open>i\<close> of the permutation.\<close>

definition placeStep :: "nat \<Rightarrow> nat \<Rightarrow> string list \<Rightarrow> grid \<times> positions \<Rightarrow> nat \<Rightarrow> grid \<times> positions" where
  "placeStep rows cols perm gp i =
     (let row = i div cols; col = i mod cols in
      if row < rows \<and> col < cols
      then (setCell (fst gp) row col (Some (perm ! i)),
            (snd gp)(perm ! i \<mapsto> (row, col)))
      else gp)"

definition placeStates :: "nat \<Rightarrow> nat \<Rightarrow> string list \<Rightarrow> grid \<times> positions" where
  "placeStates rows cols perm =
     foldl (placeStep rows cols perm) (emptyGrid rows cols, Map.empty) [0..<length perm]"

text \<open>\<open>grid.some(row => row[0] === initState)\<close>; an empty row has no cell 0.\<close>

definition initInFirstColumn :: "grid \<Rightarrow> string \<Rightarrow> bool" where
  "initInFirstColumn grid initState =
     list_ex (\<lambda>row. row \<noteq> [] \<and> row ! 0 = Some initState) grid"

text \<open>\<open>Array.prototype.findLastIndex\<close>; \<open>None\<close> stands for the result \<open>-1\<close>.\<close>

definition findLastIndex :: "('a \<Rightarrow> bool) \<Rightarrow> 'a list \<Rightarrow> nat option" where
  "findLastIndex P xs =
     (case filter (\<lambda>i. P (xs ! i)) (rev [0..<length xs]) of
        [] \<Rightarrow> None
      | i # _ \<Rightarrow> Some i)"

definition isAccepting :: "string list \<Rightarrow> cell \<Rightarrow> bool" where
  "isAccepting acceptingStates c =
     (case c of None \<Rightarrow> False | Some s \<Rightarrow> s \<in> set acceptingStates)"

text \<open>The callback of \<open>grid.every\<close> in the accToRight test.\<close>

definition rowEndsAccepting :: "string list \<Rightarrow> cell list \<Rightarrow> bool" where
  "rowEndsAccepting acceptingStates row =
     (case findLastIndex (\<lambda>c. c \<noteq> None) row of
        None \<Rightarrow> True
      | Some rightmost \<Rightarrow> isAccepting acceptingStates (row ! rightmost))"

text \<open>The callback of \<open>grid.some\<close> in the accToRight test.\<close>

definition rowHasInnerAccepting :: "string \<Rightarrow> string list \<Rightarrow> cell list \<Rightarrow> bool" where
  "rowHasInnerAccepting initState acceptingStates row =
     (case findLastIndex (\<lambda>c. c \<noteq> None) row of
        None \<Rightarrow> False
      | Some rightmost \<Rightarrow>
          list_ex (\<lambda>c. isAccepting acceptingStates c \<and> c \<noteq> Some initState)
                  (take rightmost row))"

text \<open>The condition under which the accToRight block executes \<open>continue\<close>.\<close>

definition accToRightRejects :: "string \<Rightarrow> string list \<Rightarrow> grid \<Rightarrow> bool" where
  "accToRightRejects initState acceptingStates grid =
     (\<not> list_all (rowEndsAccepting acceptingStates) grid
      \<and> list_ex (rowHasInnerAccepting initState acceptingStates) grid)"

text \<open>A candidate reaches the cost comparison iff neither \<open>continue\<close> fires.\<close>

definition keepsCandidate :: "string \<Rightarrow> string list \<Rightarrow> bool \<Rightarrow> grid \<Rightarrow> bool" where
  "keepsCandidate initState acceptingStates accToRight grid =
     (initInFirstColumn grid initState
      \<and> \<not> (accToRight \<and> accToRightRejects initState acceptingStates grid))"

text \<open>The body of the two nested loops, on the pair (bestGrid, minCost).\<close>

definition tryCandidate ::
  "string \<Rightarrow> string list \<Rightarrow> transitions \<Rightarrow> bool \<Rightarrow> grid \<times> enat
     \<Rightarrow> (nat \<times> nat) \<times> string list \<Rightarrow> grid \<times> enat" where
  "tryCandidate initState acceptingStates transitions accToRight best cand =
     (let rows = fst (fst cand); cols = snd (fst cand); perm = snd cand;
          placed = placeStates rows cols perm;
          grid = fst placed; statePositions = snd placed in
      if \<not> initInFirstColumn grid initState then best
      else if accToRight \<and> accToRightRejects initState acceptingStates grid then best
      else
        (let cost = calculateTransitionCost statePositions transitions in
         if enat cost < snd best then (grid, enat cost) else best))"

definition candidates :: "string list \<Rightarrow> ((nat \<times> nat) \<times> string list) list" where
  "candidates states =
     concat (map (\<lambda>size. map (\<lambda>perm. (size, perm)) (getPermutations states))
                 (getPossibleGridSizes (length states)))"

definition searchLoop ::
  "string list \<Rightarrow> string \<Rightarrow> string list \<Rightarrow> transitions \<Rightarrow> bool \<Rightarrow> grid \<times> enat" where
  "searchLoop states initState acceptingStates transitions accToRight =
     foldl (tryCandidate initState acceptingStates transitions accToRight)
           ([], \<infinity>) (candidates states)"

definition rowOccupied :: "cell list \<Rightarrow> bool" where
  "rowOccupied row = list_ex (\<lambda>c. c \<noteq> None) row"

definition findOptimalStatePlacement ::
  "string list \<Rightarrow> string \<Rightarrow> string list \<Rightarrow> transitions \<Rightarrow> bool \<Rightarrow> grid" where
  "findOptimalStatePlacement states initState acceptingStates transitions accToRight =
     filter rowOccupied
       (fst (searchLoop states initState acceptingStates transitions accToRight))"

section \<open>Transition table and connectivity\<close>

text \<open>The body of \<open>transitionsList.forEach\<close> in \<open>createTransitions\<close>.\<close>

definition addTransition :: "transitions \<Rightarrow> string \<Rightarrow> transitions" where
  "addTransition transitions transition =
     (let parts = map jsTrim (splitOn CHR '','' (jsTrim transition));
          fromState = (case parts of [] \<Rightarrow> [] | p # _ \<Rightarrow> p);
          rest = tl parts;
          toState = (if rest = [] then [] else last rest);
          symbols = butlast rest;
          key = joinWith '','' symbols;
          bySymbol = (case map_of transitions fromState of None \<Rightarrow> [] | Some m \<Rightarrow> m);
          dests = (case map_of bySymbol key of None \<Rightarrow> [] | Some d \<Rightarrow> d)
      in setKey fromState (setKey key (dests @ [toState]) bySymbol) transitions)"

definition createTransitions :: "string \<Rightarrow> transitions" where
  "createTransitions transitionString =
     foldl addTransition []
       (filter (\<lambda>line. jsTrim line \<noteq> []) (splitOn CHR '';'' (jsTrim transitionString)))"

text \<open>\<open>None\<close> is the result \<open>null\<close>.\<close>

definition checkTransition :: "transitions \<Rightarrow> string \<Rightarrow> string \<Rightarrow> string list option" where
  "checkTransition transitions s1 s2 =
     (let keys = (case map_of transitions s1 of
                    None \<Rightarrow> []
                  | Some bySymbol \<Rightarrow> map fst (filter (\<lambda>entry. s2 \<in> set (snd entry)) bySymbol));
          symbols = concat (map (splitOn CHR '','') keys)
      in if symbols \<noteq> [] then Some (sort symbols) else None)"

definition checkConnection :: "transitions \<Rightarrow> string \<Rightarrow> string \<Rightarrow> nat" where
  "checkConnection transitions stateA stateB =
     (if checkTransition transitions stateA stateB \<noteq> None
         \<and> checkTransition transitions stateB stateA \<noteq> None then 2
      else if checkTransition transitions stateA stateB \<noteq> None
         \<or> checkTransition transitions stateB stateA \<noteq> None then 1
      else 0)"

section \<open>Edge routing\<close>

text \<open>The index pairs \<open>(i, j)\<close> of a two-dimensional array in the order of the nested loops.\<close>

definition cellIndices :: "'a list list \<Rightarrow> (nat \<times> nat) list" where
  "cellIndices arr =
     concat (map (\<lambda>i. map (\<lambda>j. (i, j)) [0..<length (arr ! i)]) [0..<length arr])"

text \<open>\<open>grid[i][j] === null\<close>; a read out of range gives \<open>undefined\<close>, which is not \<open>null\<close>.\<close>

definition isNullAt :: "grid \<Rightarrow> nat \<Rightarrow> nat \<Rightarrow> bool" where
  "isNullAt grid i j = (i < length grid \<and> j < length (grid ! i) \<and> grid ! i ! j = None)"

text \<open>The four tests of \<open>getEdge\<close> at a cell that holds the item.\<close>

definition freeSide :: "grid \<Rightarrow> nat \<Rightarrow> nat \<Rightarrow> string option" where
  "freeSide grid i j =
     (if i = 0 \<or> isNullAt grid (i - 1) j then Some ''above''
      else if i = length grid - 1 \<or> isNullAt grid (i + 1) j then Some ''below''
      else if j = 0 \<or> isNullAt grid i (j - 1) then Some ''left''
      else if j = length (grid ! i) - 1 \<or> isNullAt grid i (j + 1) then Some ''right''
      else None)"

definition getEdge :: "grid \<Rightarrow> string \<Rightarrow> string option" where
  "getEdge grid item =
     (case List.map_filter
             (\<lambda>ij. if grid ! fst ij ! snd ij = Some item then freeSide grid (fst ij) (snd ij) else None)
             (cellIndices grid) of
        [] \<Rightarrow> None
      | side # _ \<Rightarrow> Some side)"

definition findPosition :: "grid \<Rightarrow> string \<Rightarrow> (nat \<times> nat) option" where
  "findPosition arr2d element =
     find (\<lambda>ij. arr2d ! fst ij ! snd ij = Some element) (cellIndices arr2d)"

text \<open>The test of the second double loop of \<open>doesLineCrossOtherElements\<close> at cell \<open>(i, j)\<close>.\<close>

definition crossesAt :: "nat \<times> nat \<Rightarrow> nat \<times> nat \<Rightarrow> nat \<times> nat \<Rightarrow> bool" where
  "crossesAt p1 p2 ij =
     (let x1 = fst p1; y1 = snd p1; x2 = fst p2; y2 = snd p2; i = fst ij; j = snd ij in
      \<not> ((i = x1 \<and> j = y1) \<or> (i = x2 \<and> j = y2))
      \<and> (int x2 - int x1) * (int j - int y1) = (int y2 - int y1) * (int i - int x1)
      \<and> min x1 x2 \<le> i \<and> i \<le> max x1 x2
      \<and> min y1 y2 \<le> j \<and> j \<le> max y1 y2)"

definition doesLineCrossOtherElements :: "grid \<Rightarrow> string \<Rightarrow> string \<Rightarrow> bool" where
  "doesLineCrossOtherElements arr2d e1 e2 =
     (case findPosition arr2d e1 of
        None \<Rightarrow> False
      | Some pos1 \<Rightarrow>
          (case findPosition arr2d e2 of
             None \<Rightarrow> False
           | Some pos2 \<Rightarrow> list_ex (crossesAt pos1 pos2) (cellIndices arr2d)))"

text \<open>\<open>Array.prototype.indexOf\<close>; \<open>None\<close> stands for the result \<open>-1\<close>.\<close>

definition indexOf :: "'a list \<Rightarrow> 'a \<Rightarrow> nat option" where
  "indexOf xs x = find (\<lambda>i. xs ! i = x) [0..<length xs]"

text \<open>
  The \<open>grid.reduce\<close> of \<open>bendDirection\<close>: the last row that holds the state and the first
  column of the state in it, \<open>[-1, -1]\<close> when no row holds it.
\<close>

definition locate :: "grid \<Rightarrow> string \<Rightarrow> int \<times> int" where
  "locate grid s =
     foldl (\<lambda>acc rowIndex.
              case indexOf (grid ! rowIndex) (Some s) of
                None \<Rightarrow> acc
              | Some colIndex \<Rightarrow> (int rowIndex, int colIndex))
           (- 1, - 1) [0..<length grid]"

text \<open>
  \<open>bendDirection\<close> returns the pair (bend keyword, label anchor). Its fourth test reads
  \<open>grid[0].length\<close>, which throws a TypeError on a grid without rows.
\<close>

definition bendDirection :: "string \<Rightarrow> string \<Rightarrow> grid \<Rightarrow> jsError + (string \<times> string)" where
  "bendDirection fromState toState grid =
     (let fromRow = fst (locate grid fromState); fromCol = snd (locate grid fromState);
          toRow = fst (locate grid toState); toCol = snd (locate grid toState) in
      if fromRow = toRow \<and> fromRow = 0
      then Inr (if fromCol < toCol then (''left'', ''above'') else (''right'', ''above''))
      else if fromRow = toRow \<and> fromRow = int (length grid) - 1
      then Inr (if fromCol < toCol then (''right'', ''below'') else (''left'', ''below''))
      else if fromCol = toCol \<and> fromCol = 0
      then Inr (if fromRow < toRow then (''right'', ''right'') else (''left'', ''left''))
      else if fromCol = toCol
      then (case grid of
              [] \<Rightarrow> Inl TypeError
            | row0 # _ \<Rightarrow>
                if fromCol = int (length row0) - 1
                then Inr (if fromRow < toRow then (''left'', ''right'') else (''right'', ''left''))
                else Inr (if fromCol < toCol then (''right'', ''right'') else (''left'', ''left'')))
      else Inr (if fromCol < toCol then (''right'', ''right'') else (''left'', ''left'')))"

definition formatSymbol :: "string \<Rightarrow> string \<Rightarrow> string" where
  "formatSymbol symbol style =
     (if style = ''italic'' then ''$'' @ symbol @ ''$''
      else if style = ''mono'' then [CHR 0x5C] @ ''texttt{'' @ symbol @ ''}''
      else symbol)"

section \<open>Diagram emitter\<close>

text \<open>
  An edge declaration is kept with the values the template interpolates: the states at
  its ends, the loop side or the bend keyword and label anchor, and the label text.
  The constructors correspond to the three templates of \<open>generate\<close>.
\<close>

datatype edge =
    LoopEdge string string string
  | StraightEdge string string string
  | BentEdge string string string string string

text \<open>The label of every template: the symbols formatted one by one and joined.\<close>

definition edgeLabel :: "string \<Rightarrow> string list \<Rightarrow> string" where
  "edgeLabel symbolsStyle symbols =
     joinWith '', '' (map (\<lambda>symbol. formatSymbol symbol symbolsStyle) symbols)"

text \<open>
  The body of the inner \<open>forEach\<close> over \<open>(fromIndex, toIndex)\<close>; the state is the pair of
  \<open>bendDirectionArray\<close> and the declarations emitted so far.
\<close>

definition edgeStep ::
  "transitions \<Rightarrow> grid \<Rightarrow> string \<Rightarrow> string list \<Rightarrow> string list list \<times> edge list
     \<Rightarrow> nat \<times> nat \<Rightarrow> jsError + (string list list \<times> edge list)" where
  "edgeStep transitionsObj optimalStatePlacement symbolsStyle statesArray st ij =
     (let fromIndex = fst ij; toIndex = snd ij;
          fromState = statesArray ! fromIndex; toState = statesArray ! toIndex;
          bendDirectionArray = fst st; emitted = snd st in
      case checkTransition transitionsObj fromState toState of
        None \<Rightarrow> Inr st
      | Some symbols \<Rightarrow>
          if fromState = toState
          then
            (let loopPos = (case getEdge optimalStatePlacement fromState of
                              None \<Rightarrow> ''below'' | Some side \<Rightarrow> side) in
             Inr (bendDirectionArray,
                  emitted @ [LoopEdge fromState loopPos (edgeLabel symbolsStyle symbols)]))
          else if \<not> doesLineCrossOtherElements optimalStatePlacement fromState toState
                  \<and> checkConnection transitionsObj fromState toState = 1
          then Inr (bendDirectionArray,
                    emitted @ [StraightEdge fromState (edgeLabel symbolsStyle symbols) toState])
          else
            (case bendDirection fromState toState optimalStatePlacement of
               Inl e \<Rightarrow> Inl e
             | Inr dirs \<Rightarrow>
                 (let bD = (if bendDirectionArray ! fromIndex ! toIndex \<noteq> []
                            then bendDirectionArray ! fromIndex ! toIndex else fst dirs) in
                  Inr (setCell (setCell bendDirectionArray fromIndex toIndex bD) toIndex fromIndex bD,
                       emitted @ [BentEdge fromState bD (snd dirs)
                                    (edgeLabel symbolsStyle symbols) toState]))))"

fun foldE :: "('s \<Rightarrow> 'a \<Rightarrow> 'e + 's) \<Rightarrow> 's \<Rightarrow> 'a list \<Rightarrow> 'e + 's" where
  "foldE f s [] = Inr s"
| "foldE f s (x # xs) = (case f s x of Inl e \<Rightarrow> Inl e | Inr s' \<Rightarrow> foldE f s' xs)"

definition statePairs :: "nat \<Rightarrow> (nat \<times> nat) list" where
  "statePairs n = concat (map (\<lambda>fromIndex. map (\<lambda>toIndex. (fromIndex, toIndex)) [0..<n]) [0..<n])"

definition edgeLoop ::
  "transitions \<Rightarrow> grid \<Rightarrow> string \<Rightarrow> string list \<Rightarrow> jsError + (string list list \<times> edge list)" where
  "edgeLoop transitionsObj optimalStatePlacement symbolsStyle statesArray =
     foldE (edgeStep transitionsObj optimalStatePlacement symbolsStyle statesArray)
       (replicate (length statesArray) (replicate (length statesArray) []), [])
       (statePairs (length statesArray))"

definition generateEdges ::
  "transitions \<Rightarrow> grid \<Rightarrow> string \<Rightarrow> string list \<Rightarrow> jsError + edge list" where
  "generateEdges transitionsObj optimalStatePlacement symbolsStyle statesArray =
     (case edgeLoop transitionsObj optimalStatePlacement symbolsStyle statesArray of
        Inl e \<Rightarrow> Inl e
      | Inr st \<Rightarrow> Inr (snd st))"

text \<open>\<open>str.replace('\\', '')\<close> removes the first backslash of the name.\<close>

definition nodeName :: "string \<Rightarrow> string" where
  "nodeName s = remove1 (CHR 0x5C) s"

definition renderEdge :: "edge \<Rightarrow> string" where
  "renderEdge e =
     (case e of
        LoopEdge s loopPos label \<Rightarrow>
          ''    '' @ [CHR 0x5C] @ ''draw ('' @ nodeName s @ '') edge[loop '' @ loopPos @ '', ->]''
          @ ''node[auto]{'' @ label @ ''} ('' @ nodeName s @ '');'' @ [CHR 0x0A]
      | StraightEdge s label t \<Rightarrow>
          ''    '' @ [CHR 0x5C] @ ''draw ('' @ nodeName s @ '') edge [above, ->] node[auto]{''
          @ label @ ''} ('' @ nodeName t @ '');'' @ [CHR 0x0A]
      | BentEdge s bD anchor label t \<Rightarrow>
          ''    '' @ [CHR 0x5C] @ ''draw ('' @ nodeName s @ '') edge[bend '' @ bD @ '', right, ->] ''
          @ ''node['' @ anchor @ '']{'' @ label @ ''} ('' @ nodeName t @ '');'' @ [CHR 0x0A])"

text \<open>
  A node declaration: the state, the style suffix \<open>stateType\<close>, and the state it is
  anchored to (\<open>below of\<close> the first state of the previous row, \<open>right of\<close> the previous
  state of the row, or unanchored).
\<close>

datatype anchoring = Unanchored | BelowOf string | RightOf string

datatype node = Node string string anchoring

definition isLetter :: "char \<Rightarrow> bool" where
  "isLetter c = ((CHR ''A'' \<le> c \<and> c \<le> CHR ''Z'') \<or> (CHR ''a'' \<le> c \<and> c \<le> CHR ''z''))"

definition isDigit :: "char \<Rightarrow> bool" where
  "isDigit c = (CHR ''0'' \<le> c \<and> c \<le> CHR ''9'')"

definition formatState :: "string \<Rightarrow> string" where
  "formatState str =
     (case str of
        c # rest \<Rightarrow>
          if isLetter c \<and> rest \<noteq> [] \<and> list_all isDigit rest
          then ''$'' @ [c] @ ''_{'' @ rest @ ''}$''
          else ''$'' @ str @ ''$''
      | [] \<Rightarrow> ''$$'')"

definition renderNode :: "node \<Rightarrow> string" where
  "renderNode nd =
     (case nd of Node state stateType anchor \<Rightarrow>
        [CHR 0x09, CHR 0x5C] @ ''node[state'' @ stateType @ ''] ('' @ nodeName state @ '') ''
        @ (case anchor of
             Unanchored \<Rightarrow> []
           | BelowOf p \<Rightarrow> ''[below of='' @ nodeName p @ ''] ''
           | RightOf p \<Rightarrow> ''[right of='' @ nodeName p @ ''] '')
        @ ''{'' @ formatState state @ ''};'' @ [CHR 0x0A])"

definition stateTypeOf :: "string \<Rightarrow> string \<Rightarrow> string list \<Rightarrow> string \<Rightarrow> string" where
  "stateTypeOf initialState initialWhere acceptingStatesArray state =
     (if state = initialState
      then '', initial'' @ (if initialWhere \<noteq> [] then '' '' @ initialWhere else [])
      else [])
     @ (if state \<in> set acceptingStatesArray then '', accepting'' else [])"

text \<open>
  The body of \<open>row.forEach\<close>; the state is (previousRowFirstState, previousState,
  declarations so far). A cell is skipped when it is \<open>null\<close> or the empty string.
\<close>

definition nodeStep ::
  "string \<Rightarrow> string \<Rightarrow> string list \<Rightarrow> nat \<Rightarrow> string option \<times> string option \<times> node list
     \<Rightarrow> nat \<times> cell \<Rightarrow> string option \<times> string option \<times> node list" where
  "nodeStep initialState initialWhere acceptingStatesArray rowIndex st jc =
     (let previousRowFirstState = fst st; previousState = fst (snd st); emitted = snd (snd st);
          colIndex = fst jc;
          truthy = (\<lambda>v. case v of None \<Rightarrow> False | Some s \<Rightarrow> s \<noteq> []) in
      case snd jc of
        None \<Rightarrow> st
      | Some state \<Rightarrow>
          if state = [] then st
          else
            (let stateType = stateTypeOf initialState initialWhere acceptingStatesArray state in
             if colIndex = 0 \<and> rowIndex > 0 \<and> truthy previousRowFirstState
             then (Some state, Some state,
                   emitted @ [Node state stateType (BelowOf (the previousRowFirstState))])
             else if colIndex > 0 \<and> truthy previousState
             then (previousRowFirstState, Some state,
                   emitted @ [Node state stateType (RightOf (the previousState))])
             else (Some state, Some state, emitted @ [Node state stateType Unanchored])))"

definition rowNodes ::
  "string \<Rightarrow> string \<Rightarrow> string list \<Rightarrow> string option \<times> node list \<Rightarrow> nat \<times> cell list
     \<Rightarrow> string option \<times> node list" where
  "rowNodes initialState initialWhere acceptingStatesArray st ir =
     (let r = foldl (nodeStep initialState initialWhere acceptingStatesArray (fst ir))
                    (fst st, None, snd st) (zip [0..<length (snd ir)] (snd ir))
      in (fst r, snd (snd r)))"

definition generateNodes :: "string \<Rightarrow> string \<Rightarrow> string list \<Rightarrow> grid \<Rightarrow> node list" where
  "generateNodes initialState initialWhere acceptingStatesArray optimalStatePlacement =
     snd (foldl (rowNodes initialState initialWhere acceptingStatesArray) (None, [])
            (zip [0..<length optimalStatePlacement] optimalStatePlacement))"

text \<open>
  \<open>generate\<close>, from the text fields of the form to the node and edge declarations. The
  preamble and the closing lines of the output are fixed text around the style
  parameters and are left out.
\<close>

definition parseStates :: "string \<Rightarrow> string list" where
  "parseStates states =
     filter (\<lambda>s. s \<noteq> []) (map jsTrim (splitWhere (\<lambda>c. c = CHR '','' \<or> c = CHR '';'') states))"

definition parseAccepting :: "string \<Rightarrow> string list" where
  "parseAccepting acceptingStates = map jsTrim (splitOn CHR '','' acceptingStates)"

definition layoutOf :: "string \<Rightarrow> string \<Rightarrow> string \<Rightarrow> string \<Rightarrow> string \<Rightarrow> grid" where
  "layoutOf states initialState acceptingStates transitions acceptingBy =
     findOptimalStatePlacement (parseStates states) initialState (parseAccepting acceptingStates)
       (createTransitions transitions) (acceptingBy = ''accepting by arrow'')"

definition generate ::
  "string \<Rightarrow> string \<Rightarrow> string \<Rightarrow> string \<Rightarrow> string \<Rightarrow> string \<Rightarrow> string
     \<Rightarrow> jsError + (node list \<times> edge list)" where
  "generate states initialState acceptingStates transitions acceptingBy symbolsStyle initialWhere =
     (let acceptingStatesArray = parseAccepting acceptingStates;
          transitionsObj = createTransitions transitions;
          statesArray = parseStates states;
          optimalStatePlacement =
            findOptimalStatePlacement statesArray initialState acceptingStatesArray transitionsObj
              (acceptingBy = ''accepting by arrow'')
      in case generateEdges transitionsObj optimalStatePlacement symbolsStyle statesArray of
           Inl e \<Rightarrow> Inl e
         | Inr es \<Rightarrow>
             Inr (generateNodes initialState initialWhere acceptingStatesArray optimalStatePlacement,
                  es))"


section \<open>Notions used in the statements\<close>

text \<open>
  The definitions of this section and the next are not part of the program: they say
  what the program computes, and the lemmas connect them to the loops above.

  The states in the occupied cells of a grid, row by row.
\<close>

definition cellStates :: "cell \<Rightarrow> string list" where
  "cellStates c = (case c of None \<Rightarrow> [] | Some s \<Rightarrow> [s])"

definition gridStates :: "grid \<Rightarrow> string list" where
  "gridStates grid = concat (map cellStates (concat grid))"



text \<open>The states at the ends of an edge declaration, and its label.\<close>

fun edgeSource :: "edge \<Rightarrow> string" where
  "edgeSource (LoopEdge a side label) = a"
| "edgeSource (StraightEdge a label b) = a"
| "edgeSource (BentEdge a d anchor label b) = a"

fun edgeTarget :: "edge \<Rightarrow> string" where
  "edgeTarget (LoopEdge a side label) = a"
| "edgeTarget (StraightEdge a label b) = b"
| "edgeTarget (BentEdge a d anchor label b) = b"

fun edgeText :: "edge \<Rightarrow> string" where
  "edgeText (LoopEdge a side label) = label"
| "edgeText (StraightEdge a label b) = label"
| "edgeText (BentEdge a d anchor label b) = label"

text \<open>The symbol keys of \<open>a\<close> whose destination array includes \<open>b\<close>, in table order.\<close>

definition symbolKeys :: "transitions \<Rightarrow> string \<Rightarrow> string \<Rightarrow> string list" where
  "symbolKeys t a b =
     (case map_of t a of
        None \<Rightarrow> []
      | Some bySymbol \<Rightarrow> map fst (filter (\<lambda>entry. b \<in> set (snd entry)) bySymbol))"

text \<open>
  The declaration emitted for the ordered pair \<open>(a, b)\<close> when the grid has no rows:
  nothing without a transition from \<open>a\<close> to \<open>b\<close>, else a loop below, a straight edge
  for a one-way connection, a bent edge for a mutual one.
\<close>

definition unplacedEdge :: "transitions \<Rightarrow> string \<Rightarrow> string \<Rightarrow> string \<Rightarrow> edge list" where
  "unplacedEdge t style a b =
     (case checkTransition t a b of
        None \<Rightarrow> []
      | Some symbols \<Rightarrow>
          if a = b then [LoopEdge a ''below'' (edgeLabel style symbols)]
          else if checkConnection t a b = 1 then [StraightEdge a (edgeLabel style symbols) b]
          else [BentEdge a ''left'' ''below'' (edgeLabel style symbols) b])"

section \<open>Notions used in the proofs\<close>

text \<open>
  The grid after the first \<open>k\<close> iterations of the placing loop, the grid and the
  positions after all of them, and the grid and cost of a candidate of the search.
\<close>

definition prefixGrid :: "nat \<Rightarrow> nat \<Rightarrow> string list \<Rightarrow> nat \<Rightarrow> grid" where
  "prefixGrid rows cols perm k =
     map (\<lambda>r. map (\<lambda>c. if r * cols + c < k then Some (perm ! (r * cols + c)) else None)
                   [0..<cols]) [0..<rows]"

definition filledGrid :: "nat \<Rightarrow> nat \<Rightarrow> string list \<Rightarrow> grid" where
  "filledGrid rows cols perm =
     map (\<lambda>r. map (\<lambda>c. if r * cols + c < length perm then Some (perm ! (r * cols + c)) else None)
                   [0..<cols]) [0..<rows]"

definition positionsUpTo :: "nat \<Rightarrow> string list \<Rightarrow> nat \<Rightarrow> positions" where
  "positionsUpTo cols perm k =
     foldl (\<lambda>m i. m(perm ! i \<mapsto> (i div cols, i mod cols))) Map.empty [0..<k]"

definition candGrid :: "(nat \<times> nat) \<times> string list \<Rightarrow> grid" where
  "candGrid cand = fst (placeStates (fst (fst cand)) (snd (fst cand)) (snd cand))"

definition candCost :: "transitions \<Rightarrow> (nat \<times> nat) \<times> string list \<Rightarrow> nat" where
  "candCost transitions cand =
     calculateTransitionCost (snd (placeStates (fst (fst cand)) (snd (fst cand)) (snd cand))) transitions"

text \<open>
  An edge declaration without its bend keyword, which is the one field that depends on
  \<open>bendDirectionArray\<close>; the declaration of a pair up to that field; the keyword the
  loop body picks; and the invariants of the array.
\<close>

definition eraseBend :: "edge \<Rightarrow> edge" where
  "eraseBend e = (case e of BentEdge a d anchor label b \<Rightarrow> BentEdge a [] anchor label b | _ \<Rightarrow> e)"

definition bendOf :: "string \<Rightarrow> string \<Rightarrow> grid \<Rightarrow> string \<times> string" where
  "bendOf a b grid = (case bendDirection a b grid of Inl e \<Rightarrow> ([], []) | Inr dirs \<Rightarrow> dirs)"

definition straightCondition :: "transitions \<Rightarrow> grid \<Rightarrow> string \<Rightarrow> string \<Rightarrow> bool" where
  "straightCondition t grid a b =
     (\<not> doesLineCrossOtherElements grid a b \<and> checkConnection t a b = 1)"

definition plainEdge :: "transitions \<Rightarrow> grid \<Rightarrow> string \<Rightarrow> string \<Rightarrow> string \<Rightarrow> edge list" where
  "plainEdge t grid style a b =
     (case checkTransition t a b of
        None \<Rightarrow> []
      | Some symbols \<Rightarrow>
          if a = b
          then [LoopEdge a (case getEdge grid a of None \<Rightarrow> ''below'' | Some side \<Rightarrow> side)
                  (edgeLabel style symbols)]
          else if straightCondition t grid a b
          then [StraightEdge a (edgeLabel style symbols) b]
          else [BentEdge a [] (snd (bendOf a b grid)) (edgeLabel style symbols) b])"

definition nextBend :: "string list list \<Rightarrow> grid \<Rightarrow> string list \<Rightarrow> nat \<times> nat \<Rightarrow> string" where
  "nextBend arr grid states ij =
     (if arr ! fst ij ! snd ij \<noteq> [] then arr ! fst ij ! snd ij
      else fst (bendOf (states ! fst ij) (states ! snd ij) grid))"

definition bendInv :: "string list \<Rightarrow> string list list \<Rightarrow> edge list \<Rightarrow> bool" where
  "bendInv states arr out =
     (length arr = length states
      \<and> (\<forall>i < length states. length (arr ! i) = length states)
      \<and> (\<forall>i < length states. \<forall>j < length states. arr ! i ! j = arr ! j ! i)
      \<and> (\<forall>i < length states. \<forall>j < length states.
            arr ! i ! j = [] \<or> arr ! i ! j = ''left'' \<or> arr ! i ! j = ''right'')
      \<and> (\<forall>i < length states. \<forall>j < length states. \<forall>d anchor label.
            BentEdge (states ! i) d anchor label (states ! j) \<in> set out \<longrightarrow> arr ! i ! j = d \<and> d \<noteq> []))"

definition leftOnly :: "nat \<Rightarrow> string list list \<Rightarrow> bool" where
  "leftOnly n arr =
     (length arr = n \<and> (\<forall>i < n. length (arr ! i) = n)
      \<and> (\<forall>i < n. \<forall>j < n. arr ! i ! j = [] \<or> arr ! i ! j = ''left''))"

section \<open>Lemmas on the layout search\<close>

lemma gridSizes_iff:
  "(r, c) \<in> set (getPossibleGridSizes n) \<longleftrightarrow>
     1 \<le> r \<and> r \<le> n \<and> 1 \<le> c \<and> c \<le> n \<and> (r * c = n \<or> r * c = n + 1)"
proof -
  have "(r, c) \<in> set (getPossibleGridSizes n) \<longleftrightarrow>
     r \<in> set [1..<Suc n] \<and> c \<in> set [1..<Suc n] \<and> (r * c = n \<or> r * c = n + 1)"
    unfolding getPossibleGridSizes_def set_concat set_map by (auto split: if_splits simp del: upt_Suc set_upt)
  then show ?thesis by (simp del: upt_Suc) linarith
qed

lemma mset_remove_nth: "i < length xs \<Longrightarrow> add_mset (xs ! i) (mset (take i xs @ drop (Suc i) xs)) = mset xs"
  by (metis append_take_drop_id id_take_nth_drop mset.simps(2) mset_append union_mset_add_mset_right)

lemma getPermutations_mset:
  "p \<in> set (getPermutations xs) \<Longrightarrow> mset p = mset xs"
proof (induction xs arbitrary: p rule: getPermutations.induct)
  case (1 arr)
  show ?case
  proof (cases "arr = []")
    case True
    with "1.prems" show ?thesis by (simp add: getPermutations.simps)
  next
    case False
    with "1.prems" obtain i q where i: "i < length arr"
      and q: "q \<in> set (getPermutations (take i arr @ drop (Suc i) arr))"
      and p: "p = arr ! i # q"
      by (subst (asm) getPermutations.simps) auto
    from "1.IH"[OF False _ q] i have "mset q = mset (take i arr @ drop (Suc i) arr)" by simp
    with p i show ?thesis using mset_remove_nth[OF i] by simp
  qed
qed

lemma prefixGrid_0: "prefixGrid rows cols perm 0 = emptyGrid rows cols"
  by (simp add: prefixGrid_def emptyGrid_def map_replicate_const)

lemma filledGrid_prefix: "filledGrid rows cols perm = prefixGrid rows cols perm (length perm)"
  by (simp add: prefixGrid_def filledGrid_def)

lemma cell_index_eq:
  fixes r c cols k :: nat
  assumes "c < cols"
  shows "r * cols + c = k \<longleftrightarrow> r = k div cols \<and> c = k mod cols"
proof -
  from assms have pos: "0 < cols" by simp
  have "(r * cols + c) div cols = r" "(r * cols + c) mod cols = c"
    using assms pos by simp_all
  moreover have "k div cols * cols + k mod cols = k" by simp
  ultimately show ?thesis by metis
qed

lemma prefixGrid_Suc:
  assumes "0 < cols" "k < rows * cols"
  shows "(prefixGrid rows cols perm k)[k div cols :=
           (prefixGrid rows cols perm k ! (k div cols))[k mod cols := Some (perm ! k)]]
         = prefixGrid rows cols perm (Suc k)"
proof (rule nth_equalityI)
  show "length ((prefixGrid rows cols perm k)[k div cols :=
           (prefixGrid rows cols perm k ! (k div cols))[k mod cols := Some (perm ! k)]])
        = length (prefixGrid rows cols perm (Suc k))"
    by (simp add: prefixGrid_def)
next
  fix r
  assume "r < length ((prefixGrid rows cols perm k)[k div cols :=
           (prefixGrid rows cols perm k ! (k div cols))[k mod cols := Some (perm ! k)]])"
  then have r: "r < rows" by (simp add: prefixGrid_def)
  have kd: "k div cols < rows" using assms by (simp add: less_mult_imp_div_less)
  show "(prefixGrid rows cols perm k)[k div cols :=
           (prefixGrid rows cols perm k ! (k div cols))[k mod cols := Some (perm ! k)]] ! r
        = prefixGrid rows cols perm (Suc k) ! r"
  proof (rule nth_equalityI)
    show "length ((prefixGrid rows cols perm k)[k div cols :=
           (prefixGrid rows cols perm k ! (k div cols))[k mod cols := Some (perm ! k)]] ! r)
        = length (prefixGrid rows cols perm (Suc k) ! r)"
      using r kd by (simp add: prefixGrid_def nth_list_update)
  next
    fix c
    assume "c < length ((prefixGrid rows cols perm k)[k div cols :=
           (prefixGrid rows cols perm k ! (k div cols))[k mod cols := Some (perm ! k)]] ! r)"
    then have c: "c < cols" using r kd by (simp add: prefixGrid_def nth_list_update split: if_splits)
    have eq: "r * cols + c < Suc k \<longleftrightarrow> r * cols + c < k \<or> (r = k div cols \<and> c = k mod cols)"
      using cell_index_eq[OF c, of r k] by auto
    have nlt: "\<not> (k div cols * cols + k mod cols < k)" by simp
    show "(prefixGrid rows cols perm k)[k div cols :=
           (prefixGrid rows cols perm k ! (k div cols))[k mod cols := Some (perm ! k)]] ! r ! c
        = prefixGrid rows cols perm (Suc k) ! r ! c"
      using r kd c eq nlt assms(1)
      by (auto simp: prefixGrid_def nth_list_update)
  qed
qed

lemma placeStep_in_range:
  assumes "0 < cols" "k < rows * cols"
  shows "placeStep rows cols perm gp k =
     ((fst gp)[k div cols := ((fst gp) ! (k div cols))[k mod cols := Some (perm ! k)]],
      (snd gp)(perm ! k \<mapsto> (k div cols, k mod cols)))"
  using assms by (simp add: placeStep_def setCell_def Let_def less_mult_imp_div_less)

lemma positionsUpTo_0: "positionsUpTo cols perm 0 = Map.empty"
  by (simp add: positionsUpTo_def)

lemma positionsUpTo_Suc:
  "positionsUpTo cols perm (Suc k) = (positionsUpTo cols perm k)(perm ! k \<mapsto> (k div cols, k mod cols))"
  unfolding positionsUpTo_def by simp

lemma placeLoop_prefix:
  assumes "0 < cols" "k \<le> rows * cols"
  shows "foldl (placeStep rows cols perm) (emptyGrid rows cols, Map.empty) [0..<k] =
     (prefixGrid rows cols perm k, positionsUpTo cols perm k)"
  using assms(2)
proof (induction k)
  case 0
  show ?case by (simp add: prefixGrid_0 positionsUpTo_0)
next
  case (Suc k)
  then have k: "k < rows * cols" by simp
  have "foldl (placeStep rows cols perm) (emptyGrid rows cols, Map.empty) [0..<Suc k]
        = placeStep rows cols perm (prefixGrid rows cols perm k, positionsUpTo cols perm k) k"
    using Suc by simp
  also have "\<dots> = (prefixGrid rows cols perm (Suc k), positionsUpTo cols perm (Suc k))"
    unfolding placeStep_in_range[OF assms(1) k]
    by (simp only: fst_conv snd_conv prefixGrid_Suc[OF assms(1) k] positionsUpTo_Suc)
  finally show ?case .
qed

lemma placeStates_grid:
  assumes "0 < cols" "length perm \<le> rows * cols"
  shows "fst (placeStates rows cols perm) = filledGrid rows cols perm"
  by (simp add: placeStates_def placeLoop_prefix[OF assms] filledGrid_prefix)


lemma tryCandidate_eq:
  "tryCandidate i a t f best c =
     (if keepsCandidate i a f (candGrid c) \<and> enat (candCost t c) < snd best
      then (candGrid c, enat (candCost t c)) else best)"
  by (simp add: tryCandidate_def keepsCandidate_def candGrid_def candCost_def Let_def)



lemma search_result:
  "foldl (tryCandidate i a t f) best cs = best \<or>
   (\<exists>c \<in> set cs. keepsCandidate i a f (candGrid c) \<and>
       foldl (tryCandidate i a t f) best cs = (candGrid c, enat (candCost t c)))"
proof (induction cs arbitrary: best)
  case Nil
  show ?case by simp
next
  case (Cons d cs)
  from Cons.IH[of "tryCandidate i a t f best d"] show ?case
    by (auto simp: tryCandidate_eq split: if_splits)
qed

lemma candidates_iff:
  "c \<in> set (candidates states) \<longleftrightarrow>
     fst c \<in> set (getPossibleGridSizes (length states)) \<and> snd c \<in> set (getPermutations states)"
  by (cases c) (auto simp: candidates_def)

lemma getPermutations_length: "p \<in> set (getPermutations xs) \<Longrightarrow> length p = length xs"
  using getPermutations_mset[of p xs] by (metis size_mset)

lemma candidate_fits:
  assumes "c \<in> set (candidates states)"
  shows "0 < snd (fst c)" "length (snd c) \<le> fst (fst c) * snd (fst c)" "length (snd c) = length states"
    "(fst (fst c), snd (fst c)) \<in> set (getPossibleGridSizes (length (snd c)))"
proof -
  obtain r cl p where c: "c = ((r, cl), p)" by (metis surj_pair)
  from assms c have sz: "(r, cl) \<in> set (getPossibleGridSizes (length states))"
    and p: "p \<in> set (getPermutations states)"
    by (simp_all add: candidates_iff)
  from p have len: "length p = length states" by (rule getPermutations_length)
  from sz have b: "1 \<le> cl" "r * cl = length states \<or> r * cl = length states + 1"
    by (simp_all add: gridSizes_iff)
  from len c show "length (snd c) = length states" by simp
  from b c show "0 < snd (fst c)" by simp
  from b len c show "length (snd c) \<le> fst (fst c) * snd (fst c)" by auto
  from sz len c show "(fst (fst c), snd (fst c)) \<in> set (getPossibleGridSizes (length (snd c)))" by simp
qed

lemma candGrid_filled:
  assumes "c \<in> set (candidates states)"
  shows "candGrid c = filledGrid (fst (fst c)) (snd (fst c)) (snd c)"
  unfolding candGrid_def using candidate_fits(1,2)[OF assms] by (rule placeStates_grid)

lemma last_row_started:
  fixes rows cols n r :: nat
  assumes "(rows, cols) \<in> set (getPossibleGridSizes n)" "r < rows"
  shows "r * cols < n"
proof -
  from assms(1) have b: "1 \<le> rows" "rows \<le> n" "1 \<le> cols" "rows * cols = n \<or> rows * cols = n + 1"
    by (simp_all add: gridSizes_iff)
  from assms(2) have "Suc r \<le> rows" by simp
  then have "Suc r * cols \<le> rows * cols" by (rule mult_le_mono1)
  then have le: "r * cols + cols \<le> rows * cols" by (simp add: add.commute)
  show ?thesis
  proof (cases "cols = 1")
    case True
    with b assms(2) show ?thesis by auto
  next
    case False
    with b have "2 \<le> cols" by simp
    with le b(4) show ?thesis by linarith
  qed
qed

lemma filledGrid_rows_occupied:
  assumes "(rows, cols) \<in> set (getPossibleGridSizes (length perm))"
  shows "filter rowOccupied (filledGrid rows cols perm) = filledGrid rows cols perm"
proof -
  have pos: "0 < cols" using assms by (simp add: gridSizes_iff)
  have "rowOccupied row" if "row \<in> set (filledGrid rows cols perm)" for row
  proof -
    from that obtain r where r: "r < rows"
      and row: "row = map (\<lambda>c. if r * cols + c < length perm then Some (perm ! (r * cols + c)) else None) [0..<cols]"
      by (auto simp: filledGrid_def)
    have "r * cols < length perm" using last_row_started[OF assms r] .
    then have "row ! 0 \<noteq> None" using pos row by simp
    moreover have "row ! 0 \<in> set row" using pos row by (intro nth_mem) simp
    ultimately show ?thesis unfolding rowOccupied_def list_ex_iff by blast
  qed
  then show ?thesis by simp
qed

lemma placement_shape:
  "(findOptimalStatePlacement s i a t f = [] \<and> searchLoop s i a t f = ([], \<infinity>)) \<or>
   (\<exists>c \<in> set (candidates s). keepsCandidate i a f (candGrid c) \<and>
      searchLoop s i a t f = (candGrid c, enat (candCost t c)) \<and>
      findOptimalStatePlacement s i a t f = candGrid c)"
proof (cases "searchLoop s i a t f = ([], \<infinity>)")
  case True
  then show ?thesis by (simp add: findOptimalStatePlacement_def)
next
  case False
  with search_result[of i a t f "([], \<infinity>)" "candidates s"]
  obtain c where c: "c \<in> set (candidates s)" "keepsCandidate i a f (candGrid c)"
        "searchLoop s i a t f = (candGrid c, enat (candCost t c))"
    unfolding searchLoop_def by fast
  have "filter rowOccupied (candGrid c) = candGrid c"
    unfolding candGrid_filled[OF c(1)]
    using candidate_fits(4)[OF c(1)] by (rule filledGrid_rows_occupied)
  then have "findOptimalStatePlacement s i a t f = candGrid c"
    by (simp add: findOptimalStatePlacement_def c(3))
  with c show ?thesis by fast
qed

lemma placement_cases:
  assumes "findOptimalStatePlacement s i a t f \<noteq> []"
  obtains c where "c \<in> set (candidates s)" "keepsCandidate i a f (candGrid c)"
      "searchLoop s i a t f = (candGrid c, enat (candCost t c))"
      "findOptimalStatePlacement s i a t f = candGrid c"
  using placement_shape[of s i a t f] assms by fast

lemma concat_row_major:
  "concat (map (\<lambda>r. map (\<lambda>c. f (r * cols + c)) [0..<cols]) [0..<rows]) = map f [0..<rows * cols]"
proof (induction rows)
  case 0
  show ?case by simp
next
  case (Suc rows)
  have s: "Suc rows * cols = rows * cols + cols" by simp
  have "[0..<rows * cols + cols] = [0..<rows * cols] @ [rows * cols..<rows * cols + cols]"
    by (rule upt_add_eq_append) simp
  moreover have "[rows * cols..<rows * cols + cols] = map (\<lambda>c. rows * cols + c) [0..<cols]"
    using map_add_upt[of "rows * cols" cols] by (simp only: add.commute)
  ultimately have "map f [0..<Suc rows * cols]
      = map f [0..<rows * cols] @ map (\<lambda>c. f (rows * cols + c)) [0..<cols]"
    unfolding s by (simp only: map_append map_map comp_def)
  moreover have "[0..<Suc rows] = [0..<rows] @ [rows]" by simp
  ultimately show ?case using Suc by (simp only: map_append concat_append list.map concat.simps append_Nil2)
qed

lemma concat_filledGrid:
  "concat (filledGrid rows cols perm) =
     map (\<lambda>k. if k < length perm then Some (perm ! k) else None) [0..<rows * cols]"
  unfolding filledGrid_def
  by (rule concat_row_major[of "\<lambda>k. if k < length perm then Some (perm ! k) else None"])

lemma gridStates_filledGrid:
  assumes "length perm \<le> rows * cols"
  shows "gridStates (filledGrid rows cols perm) = perm"
proof -
  let ?n = "length perm"
  let ?cell = "\<lambda>k. if k < ?n then Some (perm ! k) else None"
  have split: "[0..<rows * cols] = [0..<?n] @ [?n..<rows * cols]"
    using assms upt_add_eq_append[of 0 ?n "rows * cols - ?n"] by simp
  have a: "concat (map (\<lambda>k. cellStates (?cell k)) [0..<?n]) = map (\<lambda>k. perm ! k) [0..<?n]"
  proof -
    have "map (\<lambda>k. cellStates (?cell k)) [0..<?n] = map (\<lambda>k. [perm ! k]) [0..<?n]"
      by (rule map_cong) (simp_all add: cellStates_def)
    then show ?thesis by (simp only: concat_map_singleton)
  qed
  have b: "concat (map (\<lambda>k. cellStates (?cell k)) [?n..<rows * cols]) = []"
    by (simp add: cellStates_def)
  have "gridStates (filledGrid rows cols perm)
        = concat (map (\<lambda>k. cellStates (?cell k)) [0..<rows * cols])"
    by (simp only: gridStates_def concat_filledGrid map_map comp_def)
  also have "\<dots> = map (\<lambda>k. perm ! k) [0..<?n]"
    unfolding split map_append concat_append a b by simp
  also have "\<dots> = perm" by (rule map_nth)
  finally show ?thesis .
qed






lemma occupied_cell_in_gridStates:
  assumes "row \<in> set g" "row \<noteq> []" "row ! 0 = Some s"
  shows "s \<in> set (gridStates g)"
proof -
  from assms(2,3) have "Some s \<in> set row" by (metis length_greater_0_conv nth_mem)
  with assms(1) have "Some s \<in> set (concat g)" by auto
  then show ?thesis by (force simp: gridStates_def cellStates_def)
qed

lemma unlisted_initial_no_layout:
  assumes "initState \<notin> set states"
  shows "findOptimalStatePlacement states initState acc t f = []"
proof (rule ccontr)
  assume "findOptimalStatePlacement states initState acc t f \<noteq> []"
  then obtain c where c: "c \<in> set (candidates states)"
    and k: "keepsCandidate initState acc f (candGrid c)"
    by (rule placement_cases)
  from k obtain row where "row \<in> set (candGrid c)" "row \<noteq> []" "row ! 0 = Some initState"
    by (auto simp: keepsCandidate_def initInFirstColumn_def list_ex_iff)
  then have "initState \<in> set (gridStates (candGrid c))" by (rule occupied_cell_in_gridStates)
  moreover have "gridStates (candGrid c) = snd c"
    unfolding candGrid_filled[OF c]
    using candidate_fits(2)[OF c] by (rule gridStates_filledGrid)
  moreover from c have "mset (snd c) = mset states"
    by (simp add: candidates_iff getPermutations_mset)
  ultimately have "initState \<in> set states" by (metis mset_eq_setD)
  with assms show False by contradiction
qed

lemma spec_constraints_kept:
  assumes "initInFirstColumn g initState"
    and "list_all (rowEndsAccepting acc) g"
  shows "keepsCandidate initState acc f g"
  using assms by (simp add: keepsCandidate_def accToRightRejects_def)

lemma accepting_ignored_when_disabled:
  "findOptimalStatePlacement states initState acc t False
   = findOptimalStatePlacement states initState acc' t False"
proof -
  have "tryCandidate initState acc t False = tryCandidate initState acc' t False"
    by (intro ext) (simp add: tryCandidate_def Let_def)
  then show ?thesis by (simp add: findOptimalStatePlacement_def searchLoop_def)
qed

section \<open>Lemmas on the edge router and the emitter\<close>

lemma locate_empty: "locate [] s = (- 1, - 1)"
  by (simp add: locate_def)

lemma bendDirection_total: "\<exists>dirs. bendDirection a b grid = Inr dirs"
proof (cases grid)
  case Nil
  then show ?thesis by (simp add: bendDirection_def locate_empty)
next
  case (Cons row0 rest)
  then show ?thesis by (simp add: bendDirection_def Let_def)
qed

lemma bendDirection_bendOf: "bendDirection a b grid = Inr (bendOf a b grid)"
  using bendDirection_total[of a b grid] by (auto simp: bendOf_def)

lemma bendOf_keyword: "fst (bendOf a b grid) = ''left'' \<or> fst (bendOf a b grid) = ''right''"
proof -
  have "bendDirection a b grid = Inr dirs \<Longrightarrow> fst dirs = ''left'' \<or> fst dirs = ''right''" for dirs
    by (auto simp: bendDirection_def Let_def split: if_splits list.splits)
  then show ?thesis using bendDirection_bendOf[of a b grid] by blast
qed

lemma bendOf_nonempty: "fst (bendOf a b grid) \<noteq> []"
  using bendOf_keyword[of a b grid] by auto

lemma edgeStep_cases:
  "edgeStep t grid style states (arr, out) ij =
     (case checkTransition t (states ! fst ij) (states ! snd ij) of
        None \<Rightarrow> Inr (arr, out)
      | Some symbols \<Rightarrow>
          if states ! fst ij = states ! snd ij
             \<or> straightCondition t grid (states ! fst ij) (states ! snd ij)
          then Inr (arr, out @ plainEdge t grid style (states ! fst ij) (states ! snd ij))
          else Inr (setCell (setCell arr (fst ij) (snd ij) (nextBend arr grid states ij))
                      (snd ij) (fst ij) (nextBend arr grid states ij),
                    out @ [BentEdge (states ! fst ij) (nextBend arr grid states ij)
                             (snd (bendOf (states ! fst ij) (states ! snd ij) grid))
                             (edgeLabel style symbols) (states ! snd ij)]))"
  by (simp add: edgeStep_def Let_def plainEdge_def straightCondition_def nextBend_def
        bendDirection_bendOf split: option.splits)

lemma edgeStep_total: "\<exists>st'. edgeStep t grid style states st ij = Inr st'"
  by (cases st) (simp add: edgeStep_cases split: option.splits)

lemma edgeStep_erased:
  assumes "edgeStep t grid style states st ij = Inr st'"
  shows "map eraseBend (snd st') =
           map eraseBend (snd st) @ plainEdge t grid style (states ! fst ij) (states ! snd ij)"
proof -
  obtain arr out where st: "st = (arr, out)" by (cases st)
  have er: "map eraseBend (plainEdge t grid style a b) = plainEdge t grid style a b" for a b
    by (simp add: plainEdge_def eraseBend_def split: option.splits)
  from assms show ?thesis
    unfolding st edgeStep_cases
    by (auto simp: er split: option.splits if_splits)
       (simp_all add: plainEdge_def eraseBend_def)
qed

lemma foldE_edgeStep:
  "\<exists>st'. foldE (edgeStep t grid style states) st ps = Inr st' \<and>
         map eraseBend (snd st') =
           map eraseBend (snd st)
           @ concat (map (\<lambda>ij. plainEdge t grid style (states ! fst ij) (states ! snd ij)) ps)"
proof (induction ps arbitrary: st)
  case Nil
  show ?case by simp
next
  case (Cons ij ps)
  from edgeStep_total[of t grid style states st ij]
  obtain st1 where s1: "edgeStep t grid style states st ij = Inr st1" by blast
  from Cons.IH[of st1] obtain st' where
    f: "foldE (edgeStep t grid style states) st1 ps = Inr st'"
    and m: "map eraseBend (snd st') = map eraseBend (snd st1)
           @ concat (map (\<lambda>ij. plainEdge t grid style (states ! fst ij) (states ! snd ij)) ps)"
    by blast
  from s1 f have "foldE (edgeStep t grid style states) st (ij # ps) = Inr st'" by simp
  moreover from m edgeStep_erased[OF s1]
  have "map eraseBend (snd st') = map eraseBend (snd st)
           @ concat (map (\<lambda>ij. plainEdge t grid style (states ! fst ij) (states ! snd ij)) (ij # ps))"
    by simp
  ultimately show ?case by blast
qed

lemma generateEdges_erased:
  "\<exists>es. generateEdges t grid style states = Inr es \<and>
     map eraseBend es =
       concat (map (\<lambda>ij. plainEdge t grid style (states ! fst ij) (states ! snd ij))
                   (statePairs (length states)))"
proof -
  from foldE_edgeStep[of t grid style states
         "(replicate (length states) (replicate (length states) []), [])" "statePairs (length states)"]
  obtain st' where "edgeLoop t grid style states = Inr st'"
    and "map eraseBend (snd st') =
       concat (map (\<lambda>ij. plainEdge t grid style (states ! fst ij) (states ! snd ij))
                   (statePairs (length states)))"
    unfolding edgeLoop_def by auto
  then show ?thesis by (simp add: generateEdges_def)
qed

lemma setCell_length: "length (setCell arr i j v) = length arr"
  by (simp add: setCell_def)

lemma setCell_row_length: "length (setCell arr i j v ! a) = length (arr ! a)"
  by (cases "a = i"; cases "i < length arr") (simp_all add: setCell_def list_update_beyond)

lemma setCell_nth:
  assumes "i < length arr" "j < length (arr ! i)"
  shows "setCell arr i j v ! a ! b = (if a = i \<and> b = j then v else arr ! a ! b)"
  using assms by (cases "a = i"; cases "b = j") (simp_all add: setCell_def)

lemma setCell_twice_nth:
  assumes "i < n" "j < n" "length arr = n" "\<forall>r < n. length (arr ! r) = n"
  shows "setCell (setCell arr i j v) j i v ! a ! b
         = (if (a = i \<and> b = j) \<or> (a = j \<and> b = i) then v else arr ! a ! b)"
proof -
  have l1: "j < length (setCell arr i j v)" using assms by (simp add: setCell_length)
  have l2: "i < length (setCell arr i j v ! j)" using assms by (simp add: setCell_row_length)
  have l3: "i < length arr" "j < length (arr ! i)" using assms by simp_all
  have e1: "setCell (setCell arr i j v) j i v ! a ! b
            = (if a = j \<and> b = i then v else setCell arr i j v ! a ! b)"
    by (rule setCell_nth[OF l1 l2])
  have e2: "setCell arr i j v ! a ! b = (if a = i \<and> b = j then v else arr ! a ! b)"
    by (rule setCell_nth[OF l3])
  from e2 have e3: "setCell (setCell arr i j v) j i v ! a ! b
            = (if a = j \<and> b = i then v else (if a = i \<and> b = j then v else arr ! a ! b))"
    by (subst e1) (rule arg_cong, assumption)
  show ?thesis
    by (subst e3) argo
qed

lemma statePairs_iff: "ij \<in> set (statePairs n) \<longleftrightarrow> fst ij < n \<and> snd ij < n"
  by (cases ij) (auto simp: statePairs_def image_iff)

lemma plainEdge_not_bent:
  assumes "a = b \<or> straightCondition t grid a b"
  shows "BentEdge x d anchor label y \<notin> set (plainEdge t grid style a b)"
  using assms by (auto simp: plainEdge_def split: option.splits)

lemma bendInv_step:
  assumes dist: "distinct states"
    and ij: "fst ij < length states" "snd ij < length states"
    and inv: "bendInv states arr out"
    and step: "edgeStep t grid style states (arr, out) ij = Inr (arr', out')"
  shows "bendInv states arr' out'"
proof (cases "checkTransition t (states ! fst ij) (states ! snd ij)")
  case None
  with step have "arr' = arr" "out' = out" by (simp_all add: edgeStep_cases)
  with inv show ?thesis by simp
next
  case (Some symbols)
  let ?n = "length states"
  let ?a = "states ! fst ij" and ?b = "states ! snd ij"
  show ?thesis
  proof (cases "?a = ?b \<or> straightCondition t grid ?a ?b")
    case True
    with step Some have eq: "arr' = arr" "out' = out @ plainEdge t grid style ?a ?b"
      by (simp_all add: edgeStep_cases)
    have "BentEdge x d anchor label y \<in> set out' \<longleftrightarrow> BentEdge x d anchor label y \<in> set out"
      for x d anchor label y
      using plainEdge_not_bent[OF True] eq(2) by auto
    with inv eq(1) show ?thesis by (simp add: bendInv_def)
  next
    case False
    define v where "v = nextBend arr grid states ij"
    define anchor0 where "anchor0 = snd (bendOf ?a ?b grid)"
    from step Some False have arr': "arr' = setCell (setCell arr (fst ij) (snd ij) v) (snd ij) (fst ij) v"
      and out': "out' = out @ [BentEdge ?a v anchor0 (edgeLabel style symbols) ?b]"
      by (simp_all add: edgeStep_cases v_def anchor0_def)
    from inv have len: "length arr = ?n" and rows: "\<forall>r < ?n. length (arr ! r) = ?n"
      and sym: "\<forall>i < ?n. \<forall>j < ?n. arr ! i ! j = arr ! j ! i"
      and kw: "\<forall>i < ?n. \<forall>j < ?n. arr ! i ! j = [] \<or> arr ! i ! j = ''left'' \<or> arr ! i ! j = ''right''"
      and old: "\<forall>i < ?n. \<forall>j < ?n. \<forall>d anchor label.
            BentEdge (states ! i) d anchor label (states ! j) \<in> set out \<longrightarrow> arr ! i ! j = d \<and> d \<noteq> []"
      by (simp_all add: bendInv_def)
    have cell: "arr' ! x ! y = (if (x = fst ij \<and> y = snd ij) \<or> (x = snd ij \<and> y = fst ij) then v else arr ! x ! y)"
      for x y
      unfolding arr' by (rule setCell_twice_nth[OF ij len rows])
    have vkw: "v = ''left'' \<or> v = ''right''"
      using kw ij bendOf_keyword[of ?a ?b grid] by (auto simp: v_def nextBend_def)
    then have vne: "v \<noteq> []" by auto
    have vold: "arr ! fst ij ! snd ij \<noteq> [] \<Longrightarrow> v = arr ! fst ij ! snd ij"
      by (simp add: v_def nextBend_def)
    have "length arr' = ?n" by (simp add: arr' setCell_length len)
    moreover have "\<forall>i < ?n. length (arr' ! i) = ?n"
      by (simp add: arr' setCell_row_length rows)
    moreover have "\<forall>i < ?n. \<forall>j < ?n. arr' ! i ! j = arr' ! j ! i"
      using sym by (auto simp: cell)
    moreover have "\<forall>i < ?n. \<forall>j < ?n. arr' ! i ! j = [] \<or> arr' ! i ! j = ''left'' \<or> arr' ! i ! j = ''right''"
      using kw vkw by (auto simp: cell)
    moreover have "\<forall>i < ?n. \<forall>j < ?n. \<forall>d anchor label.
            BentEdge (states ! i) d anchor label (states ! j) \<in> set out' \<longrightarrow> arr' ! i ! j = d \<and> d \<noteq> []"
    proof (intro allI impI)
      fix i j d anchor label
      assume i: "i < ?n" and j: "j < ?n"
        and mem: "BentEdge (states ! i) d anchor label (states ! j) \<in> set out'"
      from mem out' consider
        (new) "states ! i = ?a" "states ! j = ?b" "d = v"
        | (old) "BentEdge (states ! i) d anchor label (states ! j) \<in> set out"
        by auto
      then show "arr' ! i ! j = d \<and> d \<noteq> []"
      proof cases
        case new
        from new(1) dist i ij(1) have "i = fst ij" by (simp add: nth_eq_iff_index_eq)
        moreover from new(2) dist j ij(2) have "j = snd ij" by (simp add: nth_eq_iff_index_eq)
        ultimately show ?thesis using new(3) vne by (simp add: cell)
      next
        case old
        with \<open>\<forall>i < ?n. \<forall>j < ?n. \<forall>d anchor label.
            BentEdge (states ! i) d anchor label (states ! j) \<in> set out \<longrightarrow> arr ! i ! j = d \<and> d \<noteq> []\<close> i j
        have d: "arr ! i ! j = d" "d \<noteq> []" by blast+
        show ?thesis
        proof (cases "(i = fst ij \<and> j = snd ij) \<or> (i = snd ij \<and> j = fst ij)")
          case True
          then have "arr ! fst ij ! snd ij = d" using d(1) sym ij by auto
          with vold d(2) have "v = d" by simp
          with True d(2) show ?thesis by (simp add: cell)
        next
          case False
          with d show ?thesis by (auto simp: cell)
        qed
      qed
    qed
    ultimately show ?thesis by (simp add: bendInv_def)
  qed
qed

lemma bendInv_fold:
  assumes dist: "distinct states"
    and ps: "\<forall>ij \<in> set ps. fst ij < length states \<and> snd ij < length states"
    and inv: "bendInv states (fst st) (snd st)"
    and run: "foldE (edgeStep t grid style states) st ps = Inr st'"
  shows "bendInv states (fst st') (snd st')"
  using ps inv run
proof (induction ps arbitrary: st)
  case Nil
  then show ?case by simp
next
  case (Cons ij ps)
  from edgeStep_total[of t grid style states st ij]
  obtain st1 where s1: "edgeStep t grid style states st ij = Inr st1" by blast
  from Cons.prems(1) have b: "fst ij < length states" "snd ij < length states" by simp_all
  have "bendInv states (fst st1) (snd st1)"
    using bendInv_step[OF dist b, of "fst st" "snd st" t grid style "fst st1" "snd st1"]
      Cons.prems(2) s1 by simp
  moreover from Cons.prems(3) s1 have "foldE (edgeStep t grid style states) st1 ps = Inr st'" by simp
  moreover from Cons.prems(1) have "\<forall>ij \<in> set ps. fst ij < length states \<and> snd ij < length states"
    by simp
  ultimately show ?case by (rule Cons.IH[rotated 1])
qed

lemma bendInv_start:
  "bendInv states (replicate (length states) (replicate (length states) [])) []"
  by (simp add: bendInv_def)

lemma generateEdges_bendInv:
  assumes "distinct states" "generateEdges t grid style states = Inr es"
  shows "\<exists>arr. bendInv states arr es"
proof -
  from assms(2) obtain st' where run: "edgeLoop t grid style states = Inr st'" and es: "es = snd st'"
    by (auto simp: generateEdges_def split: sum.splits)
  have "bendInv states (fst st') (snd st')"
  proof (rule bendInv_fold[OF assms(1)])
    show "\<forall>ij \<in> set (statePairs (length states)). fst ij < length states \<and> snd ij < length states"
      by (simp add: statePairs_iff)
    show "bendInv states (fst (replicate (length states) (replicate (length states) []), []))
            (snd (replicate (length states) (replicate (length states) []), []::edge list))"
      by (simp add: bendInv_start)
    show "foldE (edgeStep t grid style states)
            (replicate (length states) (replicate (length states) []), []) (statePairs (length states))
          = Inr st'"
      using run by (simp add: edgeLoop_def)
  qed
  with es show ?thesis by blast
qed







lemma findPosition_empty: "findPosition [] a = None"
  by (simp add: findPosition_def cellIndices_def)



lemma eraseBend_bent:
  "eraseBend e = BentEdge a d anchor l b \<longleftrightarrow> d = [] \<and> (\<exists>d'. e = BentEdge a d' anchor l b)"
  by (cases e) (auto simp: eraseBend_def)

lemma eraseBend_fields:
  "edgeSource (eraseBend e) = edgeSource e" "edgeTarget (eraseBend e) = edgeTarget e"
  "edgeText (eraseBend e) = edgeText e"
  by (cases e; simp add: eraseBend_def)+


lemma plainEdge_bent_iff:
  "BentEdge a d anchor l b \<in> set (plainEdge t grid style x y) \<longleftrightarrow>
     x = a \<and> y = b \<and> a \<noteq> b \<and> \<not> straightCondition t grid a b \<and> d = []
     \<and> anchor = snd (bendOf a b grid)
     \<and> (\<exists>symbols. checkTransition t a b = Some symbols \<and> l = edgeLabel style symbols)"
  by (cases "checkTransition t x y") (auto simp: plainEdge_def)

lemma plainEdge_fields:
  assumes "e \<in> set (plainEdge t grid style x y)"
  shows "edgeSource e = x \<and> edgeTarget e = y
         \<and> (\<exists>symbols. checkTransition t x y = Some symbols \<and> edgeText e = edgeLabel style symbols)"
  using assms by (cases "checkTransition t x y") (auto simp: plainEdge_def split: if_splits)

lemma pair_of_states:
  assumes "a \<in> set states" "b \<in> set states"
  obtains ij where "ij \<in> set (statePairs (length states))" "states ! fst ij = a" "states ! snd ij = b"
proof -
  from assms obtain i j where "i < length states" "states ! i = a" "j < length states" "states ! j = b"
    by (auto simp: in_set_conv_nth)
  then have "(i, j) \<in> set (statePairs (length states))" "states ! fst (i, j) = a" "states ! snd (i, j) = b"
    by (simp_all add: statePairs_iff)
  then show ?thesis by (rule that)
qed


lemma erased_bent_iff:
  assumes es: "map eraseBend es =
       concat (map (\<lambda>ij. plainEdge t grid style (states ! fst ij) (states ! snd ij))
                   (statePairs (length states)))"
    and ab: "a \<in> set states" "b \<in> set states" "a \<noteq> b" "checkTransition t a b \<noteq> None"
  shows "(\<exists>d anchor l. BentEdge a d anchor l b \<in> set es) \<longleftrightarrow> \<not> straightCondition t grid a b"
proof
  assume "\<exists>d anchor l. BentEdge a d anchor l b \<in> set es"
  then obtain d anchor l where "BentEdge a d anchor l b \<in> set es" by blast
  then have "eraseBend (BentEdge a d anchor l b) \<in> set (map eraseBend es)" by simp
  then have "BentEdge a [] anchor l b \<in> set (map eraseBend es)" by (simp add: eraseBend_def)
  with es obtain ij where "BentEdge a [] anchor l b \<in> set (plainEdge t grid style (states ! fst ij) (states ! snd ij))"
    by auto
  then show "\<not> straightCondition t grid a b" by (simp add: plainEdge_bent_iff)
next
  assume sc: "\<not> straightCondition t grid a b"
  from ab(1,2) obtain ij where ij: "ij \<in> set (statePairs (length states))"
    "states ! fst ij = a" "states ! snd ij = b" by (rule pair_of_states)
  from ab(4) obtain symbols where sy: "checkTransition t a b = Some symbols" by auto
  have "BentEdge a [] (snd (bendOf a b grid)) (edgeLabel style symbols) b \<in> set (plainEdge t grid style a b)"
    using sc sy ab(3) by (simp add: plainEdge_bent_iff)
  with ij have "BentEdge a [] (snd (bendOf a b grid)) (edgeLabel style symbols) b \<in> set (map eraseBend es)"
    unfolding es by auto
  then obtain e where "e \<in> set es"
    "eraseBend e = BentEdge a [] (snd (bendOf a b grid)) (edgeLabel style symbols) b"
    by auto
  then show "\<exists>d anchor l. BentEdge a d anchor l b \<in> set es" by (auto simp: eraseBend_bent)
qed

lemma mutual_not_straight:
  assumes "checkTransition t a b \<noteq> None" "checkTransition t b a \<noteq> None"
  shows "\<not> straightCondition t grid a b"
  using assms by (simp add: straightCondition_def checkConnection_def)

lemma checkTransition_symbolKeys:
  "checkTransition t a b =
     (if concat (map (splitOn CHR '','') (symbolKeys t a b)) \<noteq> []
      then Some (sort (concat (map (splitOn CHR '','') (symbolKeys t a b)))) else None)"
  by (simp add: checkTransition_def symbolKeys_def Let_def)

lemma bendOf_empty: "bendOf a b [] = (''left'', ''below'')"
  by (simp add: bendOf_def bendDirection_def locate_empty)

lemma getEdge_empty: "getEdge [] a = None"
  by (simp add: getEdge_def cellIndices_def)

lemma straightCondition_empty: "straightCondition t [] a b \<longleftrightarrow> checkConnection t a b = 1"
  by (simp add: straightCondition_def doesLineCrossOtherElements_def findPosition_empty)

lemma plainEdge_unplaced:
  assumes "a = b \<or> straightCondition t [] a b"
  shows "plainEdge t [] style a b = unplacedEdge t style a b"
  using assms
  by (cases "checkTransition t a b")
     (auto simp: plainEdge_def unplacedEdge_def getEdge_empty straightCondition_empty)

lemma edgeStep_unplaced:
  assumes ij: "fst ij < length states" "snd ij < length states"
    and inv: "leftOnly (length states) arr"
  shows "\<exists>arr'. edgeStep t [] style states (arr, out) ij
           = Inr (arr', out @ unplacedEdge t style (states ! fst ij) (states ! snd ij))
         \<and> leftOnly (length states) arr'"
proof (cases "checkTransition t (states ! fst ij) (states ! snd ij)")
  case None
  with inv show ?thesis by (simp add: edgeStep_cases unplacedEdge_def)
next
  case (Some symbols)
  let ?n = "length states"
  let ?a = "states ! fst ij" and ?b = "states ! snd ij"
  show ?thesis
  proof (cases "?a = ?b \<or> straightCondition t [] ?a ?b")
    case True
    with Some inv show ?thesis by (simp add: edgeStep_cases plainEdge_unplaced)
  next
    case False
    from inv have len: "length arr = ?n" and rows: "\<forall>r < ?n. length (arr ! r) = ?n"
      and kw: "\<forall>i < ?n. \<forall>j < ?n. arr ! i ! j = [] \<or> arr ! i ! j = ''left''"
      by (simp_all add: leftOnly_def)
    have v: "nextBend arr [] states ij = ''left''"
      using kw ij by (auto simp: nextBend_def bendOf_empty)
    let ?arr' = "setCell (setCell arr (fst ij) (snd ij) ''left'') (snd ij) (fst ij) ''left''"
    have cell: "?arr' ! x ! y
      = (if (x = fst ij \<and> y = snd ij) \<or> (x = snd ij \<and> y = fst ij) then ''left'' else arr ! x ! y)"
      for x y
      by (rule setCell_twice_nth[OF ij len rows])
    have "leftOnly ?n ?arr'"
      unfolding leftOnly_def
      using kw by (auto simp: cell setCell_length setCell_row_length len rows)
    moreover have "edgeStep t [] style states (arr, out) ij
        = Inr (?arr', out @ unplacedEdge t style ?a ?b)"
      using Some False
      by (simp add: edgeStep_cases v bendOf_empty unplacedEdge_def straightCondition_empty)
    ultimately show ?thesis by blast
  qed
qed

lemma foldE_unplaced:
  assumes "\<forall>ij \<in> set ps. fst ij < length states \<and> snd ij < length states"
    and "leftOnly (length states) arr"
  shows "\<exists>arr'. foldE (edgeStep t [] style states) (arr, out) ps
           = Inr (arr', out @ concat (map (\<lambda>ij. unplacedEdge t style (states ! fst ij) (states ! snd ij)) ps))"
  using assms
proof (induction ps arbitrary: arr out)
  case Nil
  show ?case by simp
next
  case (Cons ij ps)
  from Cons.prems(1) have b: "fst ij < length states" "snd ij < length states" by simp_all
  from edgeStep_unplaced[OF b Cons.prems(2), of t style out]
  obtain arr1 where s1: "edgeStep t [] style states (arr, out) ij
           = Inr (arr1, out @ unplacedEdge t style (states ! fst ij) (states ! snd ij))"
    and k1: "leftOnly (length states) arr1" by blast
  from Cons.prems(1) have "\<forall>ij \<in> set ps. fst ij < length states \<and> snd ij < length states" by simp
  from Cons.IH[OF this k1, of "out @ unplacedEdge t style (states ! fst ij) (states ! snd ij)"]
  obtain arr' where "foldE (edgeStep t [] style states)
        (arr1, out @ unplacedEdge t style (states ! fst ij) (states ! snd ij)) ps
      = Inr (arr', (out @ unplacedEdge t style (states ! fst ij) (states ! snd ij))
              @ concat (map (\<lambda>ij. unplacedEdge t style (states ! fst ij) (states ! snd ij)) ps))"
    by blast
  with s1 show ?case by simp
qed

lemma generateEdges_unplaced:
  "generateEdges t [] style states
   = Inr (concat (map (\<lambda>ij. unplacedEdge t style (states ! fst ij) (states ! snd ij))
                      (statePairs (length states))))"
proof -
  have "leftOnly (length states) (replicate (length states) (replicate (length states) []))"
    by (simp add: leftOnly_def)
  moreover have "\<forall>ij \<in> set (statePairs (length states)). fst ij < length states \<and> snd ij < length states"
    by (simp add: statePairs_iff)
  ultimately obtain arr' where "edgeLoop t [] style states
      = Inr (arr', [] @ concat (map (\<lambda>ij. unplacedEdge t style (states ! fst ij) (states ! snd ij))
                      (statePairs (length states))))"
    unfolding edgeLoop_def using foldE_unplaced[of "statePairs (length states)" states _ t style "[]"]
    by blast
  then show ?thesis by (simp add: generateEdges_def)
qed

section \<open>Claims on the layout search\<close>



text \<open>
  C2 (amended). The returned grid is empty, or its occupied cells hold exactly the
  entries of the input state list, each as often as the list names it: read row by row,
  the occupied cells are a permutation of the list. A state that the list names once is
  in exactly one cell; a state the list names twice is in two.
\<close>

theorem placed_states_are_input_states:
  "findOptimalStatePlacement states initState acceptingStates transitions accToRight = [] \<or>
   mset (gridStates (findOptimalStatePlacement states initState acceptingStates transitions accToRight))
     = mset states"
proof (cases "findOptimalStatePlacement states initState acceptingStates transitions accToRight = []")
  case True
  then show ?thesis by simp
next
  case False
  then obtain c where c: "c \<in> set (candidates states)"
    and g: "findOptimalStatePlacement states initState acceptingStates transitions accToRight = candGrid c"
    by (rule placement_cases)
  from c have p: "snd c \<in> set (getPermutations states)" by (simp add: candidates_iff)
  have "gridStates (candGrid c) = snd c"
    unfolding candGrid_filled[OF c]
    using candidate_fits(2)[OF c] by (rule gridStates_filledGrid)
  with g getPermutations_mset[OF p] show ?thesis by simp
qed

text \<open>
  Counterexample to C2 as stated: the state list \<open>[q1, q1]\<close> (the text \<open>q1, q1\<close> in the
  states field) yields a non-empty grid in which \<open>q1\<close> occupies two cells.
\<close>

theorem duplicate_state_occupies_two_cells:
  "findOptimalStatePlacement [''q1'', ''q1''] ''q1'' [] [] False = [[Some ''q1'', Some ''q1'']]
   \<and> count_list (concat (findOptimalStatePlacement [''q1'', ''q1''] ''q1'' [] [] False)) (Some ''q1'') = 2"
  by code_simp

text \<open>
  C3 (amended). With the accepting-state convention enabled, the loop body skips a
  candidate (it leaves every search state \<open>(bestGrid, minCost)\<close> as it was) exactly
  when the initial state is in no row's first column, or BOTH tests fail: some row's
  rightmost occupied cell is not accepting AND some row holds an accepting state other
  than the initial one left of its rightmost occupied cell. A candidate that passes at
  least one of the two tests is kept.
\<close>

theorem candidate_skipped_iff:
  "(\<forall>best. tryCandidate initState acceptingStates transitions True best ((rows, cols), perm) = best)
   \<longleftrightarrow>
     \<not> initInFirstColumn (fst (placeStates rows cols perm)) initState
     \<or> (\<not> list_all (rowEndsAccepting acceptingStates) (fst (placeStates rows cols perm))
        \<and> list_ex (rowHasInnerAccepting initState acceptingStates) (fst (placeStates rows cols perm)))"
proof -
  let ?c = "((rows, cols), perm)"
  let ?G = "fst (placeStates rows cols perm)"
  have kept: "keepsCandidate initState acceptingStates True ?G \<longleftrightarrow>
      \<not> (\<not> initInFirstColumn ?G initState
         \<or> (\<not> list_all (rowEndsAccepting acceptingStates) ?G
            \<and> list_ex (rowHasInnerAccepting initState acceptingStates) ?G))"
    by (auto simp: keepsCandidate_def accToRightRejects_def)
  have G: "candGrid ?c = ?G" by (simp add: candGrid_def)
  show ?thesis
  proof (cases "keepsCandidate initState acceptingStates True ?G")
    case True
    have "tryCandidate initState acceptingStates transitions True ([], \<infinity>) ?c
          = (?G, enat (candCost transitions ?c))"
      using True by (simp add: tryCandidate_eq G)
    then have "tryCandidate initState acceptingStates transitions True ([], \<infinity>) ?c \<noteq> ([], \<infinity>)"
      by simp
    then have "\<not> (\<forall>best. tryCandidate initState acceptingStates transitions True best ?c = best)"
      by blast
    with True kept show ?thesis by blast
  next
    case False
    then have "tryCandidate initState acceptingStates transitions True best ?c = best" for best
      by (simp add: tryCandidate_eq G)
    with False kept show ?thesis by blast
  qed
qed

theorem candidate_skipped_iff_witness:
  "initInFirstColumn (fst (placeStates 1 3 [''q0'', ''q1'', ''q2''])) ''q0''
   \<and> \<not> list_all (rowEndsAccepting [''q1'']) (fst (placeStates 1 3 [''q0'', ''q1'', ''q2'']))
   \<and> list_ex (rowHasInnerAccepting ''q0'' [''q1'']) (fst (placeStates 1 3 [''q0'', ''q1'', ''q2'']))
   \<and> (\<forall>best. tryCandidate ''q0'' [''q1''] [] True best ((1, 3), [''q0'', ''q1'', ''q2'']) = best)"
proof -
  have h: "initInFirstColumn (fst (placeStates 1 3 [''q0'', ''q1'', ''q2''])) ''q0''"
    by code_simp
  have a: "\<not> list_all (rowEndsAccepting [''q1'']) (fst (placeStates 1 3 [''q0'', ''q1'', ''q2'']))"
    by code_simp
  have b: "list_ex (rowHasInnerAccepting ''q0'' [''q1'']) (fst (placeStates 1 3 [''q0'', ''q1'', ''q2'']))"
    by code_simp
  from candidate_skipped_iff[of "''q0''" "[''q1'']" "[]" 1 3 "[''q0'', ''q1'', ''q2'']"] h a b
  show ?thesis by blast
qed

text \<open>
  Counterexample to C3 as stated: with accepting states \<open>q1, q2\<close> the one-row grid
  \<open>q0 q1 q2\<close> ends in an accepting state but holds the accepting state \<open>q1\<close> left of
  its rightmost cell. It passes only one of the two tests, and the loop body keeps it;
  the search returns it.
\<close>

theorem one_test_passed_candidate_kept:
  "fst (placeStates 1 3 [''q0'', ''q1'', ''q2'']) = [[Some ''q0'', Some ''q1'', Some ''q2'']]
   \<and> list_all (rowEndsAccepting [''q1'', ''q2'']) [[Some ''q0'', Some ''q1'', Some ''q2'']]
   \<and> list_ex (rowHasInnerAccepting ''q0'' [''q1'', ''q2'']) [[Some ''q0'', Some ''q1'', Some ''q2'']]
   \<and> tryCandidate ''q0'' [''q1'', ''q2''] [] True ([], \<infinity>) ((1, 3), [''q0'', ''q1'', ''q2''])
       = ([[Some ''q0'', Some ''q1'', Some ''q2'']], enat 0)
   \<and> findOptimalStatePlacement [''q0'', ''q1'', ''q2''] ''q0'' [''q1'', ''q2''] [] True
       = [[Some ''q0'', Some ''q1'', Some ''q2'']]"
  by code_simp

text \<open>
  C5 (amended). The row-end test belongs to the ENABLED convention (accepting by arrow),
  and there it is one of two alternatives: every grid returned with the convention
  enabled has an accepting state in every row's rightmost occupied cell, or has no
  accepting state other than the initial one left of a row's rightmost occupied cell.
  With the convention disabled the accepting states are not consulted (lemma
  \<open>accepting_ignored_when_disabled\<close>).
\<close>

theorem arrow_layout_row_ends:
  assumes "accToRight"
  shows "list_all (rowEndsAccepting acceptingStates)
           (findOptimalStatePlacement states initState acceptingStates transitions accToRight)
         \<or> \<not> list_ex (rowHasInnerAccepting initState acceptingStates)
           (findOptimalStatePlacement states initState acceptingStates transitions accToRight)"
proof (cases "findOptimalStatePlacement states initState acceptingStates transitions accToRight = []")
  case True
  then show ?thesis by simp
next
  case False
  then obtain c where "keepsCandidate initState acceptingStates accToRight (candGrid c)"
    and "findOptimalStatePlacement states initState acceptingStates transitions accToRight = candGrid c"
    by (rule placement_cases)
  with assms show ?thesis by (simp add: keepsCandidate_def accToRightRejects_def)
qed

theorem arrow_layout_row_ends_witness:
  "list_ex (rowHasInnerAccepting ''q0'' [''q1'', ''q2''])
     (findOptimalStatePlacement [''q0'', ''q1'', ''q2''] ''q0'' [''q1'', ''q2''] [] True)
   \<and> list_all (rowEndsAccepting [''q1'', ''q2''])
     (findOptimalStatePlacement [''q0'', ''q1'', ''q2''] ''q0'' [''q1'', ''q2''] [] True)"
proof -
  have h: "list_ex (rowHasInnerAccepting ''q0'' [''q1'', ''q2''])
     (findOptimalStatePlacement [''q0'', ''q1'', ''q2''] ''q0'' [''q1'', ''q2''] [] True)"
    by code_simp
  from arrow_layout_row_ends[of True "[''q1'', ''q2'']" "[''q0'', ''q1'', ''q2'']" "''q0''" "[]"] h
  show ?thesis by blast
qed

text \<open>
  Counterexample to C5 as stated: with the convention disabled, states \<open>q1, q2\<close>,
  initial \<open>q1\<close> and accepting \<open>q1\<close>, the returned grid is the row \<open>q1 q2\<close>, whose
  rightmost occupied cell \<open>q2\<close> is not accepting. The same input with the convention
  enabled returns the same row: the row end alone is not guaranteed there either.
\<close>

theorem disabled_convention_row_end_not_accepting:
  "findOptimalStatePlacement [''q1'', ''q2''] ''q1'' [''q1''] [] False = [[Some ''q1'', Some ''q2'']]
   \<and> rowEndsAccepting [''q1''] [Some ''q1'', Some ''q2''] = False
   \<and> findOptimalStatePlacement [''q1'', ''q2''] ''q1'' [''q1''] [] True = [[Some ''q1'', Some ''q2'']]"
  by code_simp

text \<open>
  C9. Every non-empty grid returned by the layout search has a row whose cell in
  column 0 is the initial state; the grid meant is the returned one, after the rows
  without an occupied cell have been dropped.
\<close>

theorem initial_state_in_first_column:
  assumes "findOptimalStatePlacement states initState acceptingStates transitions accToRight \<noteq> []"
  shows "\<exists>row \<in> set (findOptimalStatePlacement states initState acceptingStates transitions accToRight).
           row \<noteq> [] \<and> row ! 0 = Some initState"
proof -
  from assms obtain c where "keepsCandidate initState acceptingStates accToRight (candGrid c)"
    and "findOptimalStatePlacement states initState acceptingStates transitions accToRight = candGrid c"
    by (rule placement_cases)
  then show ?thesis
    by (simp add: keepsCandidate_def initInFirstColumn_def list_ex_iff)
qed

theorem initial_state_in_first_column_witness:
  "findOptimalStatePlacement [''q1'', ''q2'', ''q3''] ''q2'' [''q3'']
      [(''q2'', [(''0'', [''q1''])])] False \<noteq> []
   \<and> (\<exists>row \<in> set (findOptimalStatePlacement [''q1'', ''q2'', ''q3''] ''q2'' [''q3'']
                      [(''q2'', [(''0'', [''q1''])])] False).
         row \<noteq> [] \<and> row ! 0 = Some ''q2'')"
proof -
  have h: "findOptimalStatePlacement [''q1'', ''q2'', ''q3''] ''q2'' [''q3'']
      [(''q2'', [(''0'', [''q1''])])] False \<noteq> []"
    by code_simp
  from initial_state_in_first_column[OF h] h show ?thesis by blast
qed


section \<open>Claims on the edge router and the emitter\<close>



text \<open>
  C6 (amended). For a state list without duplicates and a mutual pair \<open>a\<close>, \<open>b\<close>, the
  edge loop ends without error and emits a bent declaration in each direction; the two
  carry the SAME bend keyword (\<open>left\<close> or \<open>right\<close>): the keyword computed for the
  direction emitted first is stored in \<open>bendDirectionArray\<close> and reused for the reverse
  direction. (A bend to the same side of two opposite directions of travel draws two
  separate arcs.)
\<close>

theorem mutual_pair_same_bend:
  assumes dist: "distinct states"
    and ab: "a \<in> set states" "b \<in> set states" "a \<noteq> b"
    and fwd: "checkTransition t a b \<noteq> None" and bwd: "checkTransition t b a \<noteq> None"
  shows "\<exists>es d. generateEdges t grid style states = Inr es
     \<and> (d = ''left'' \<or> d = ''right'')
     \<and> (\<exists>anchor label. BentEdge a d anchor label b \<in> set es)
     \<and> (\<exists>anchor label. BentEdge b d anchor label a \<in> set es)
     \<and> (\<forall>d' anchor label. BentEdge a d' anchor label b \<in> set es \<longrightarrow> d' = d)
     \<and> (\<forall>d' anchor label. BentEdge b d' anchor label a \<in> set es \<longrightarrow> d' = d)"
proof -
  from generateEdges_erased[of t grid style states]
  obtain es where run: "generateEdges t grid style states = Inr es"
    and er: "map eraseBend es =
       concat (map (\<lambda>ij. plainEdge t grid style (states ! fst ij) (states ! snd ij))
                   (statePairs (length states)))"
    by blast
  from generateEdges_bendInv[OF dist run] obtain arr where inv: "bendInv states arr es" ..
  from ab(1,2) obtain i j where i: "i < length states" "states ! i = a"
    and j: "j < length states" "states ! j = b"
    by (auto simp: in_set_conv_nth)
  from inv i(1) j(1) have sym: "arr ! i ! j = arr ! j ! i"
    and kw: "arr ! i ! j = [] \<or> arr ! i ! j = ''left'' \<or> arr ! i ! j = ''right''"
    by (simp_all add: bendInv_def)
  have rec1: "arr ! i ! j = d' \<and> d' \<noteq> []" if "BentEdge a d' anchor label b \<in> set es" for d' anchor label
    using inv i j that unfolding bendInv_def by blast
  have rec2: "arr ! j ! i = d' \<and> d' \<noteq> []" if "BentEdge b d' anchor label a \<in> set es" for d' anchor label
    using inv i j that unfolding bendInv_def by blast
  from erased_bent_iff[OF er ab fwd] mutual_not_straight[OF fwd bwd]
  obtain d1 an1 l1 where e1: "BentEdge a d1 an1 l1 b \<in> set es" by blast
  from erased_bent_iff[OF er ab(2,1) ab(3)[symmetric] bwd] mutual_not_straight[OF bwd fwd]
  obtain d2 an2 l2 where e2: "BentEdge b d2 an2 l2 a \<in> set es" by blast
  from rec1[OF e1] rec2[OF e2] sym have d: "arr ! i ! j = d1" "d1 \<noteq> []" "d2 = d1" by simp_all
  with kw have "d1 = ''left'' \<or> d1 = ''right''" by simp
  moreover have "\<exists>anchor label. BentEdge a d1 anchor label b \<in> set es" using e1 by blast
  moreover have "\<exists>anchor label. BentEdge b d1 anchor label a \<in> set es" using e2 d(3) by blast
  moreover have "\<forall>d' anchor label. BentEdge a d' anchor label b \<in> set es \<longrightarrow> d' = d1"
    using rec1 d(1) by blast
  moreover have "\<forall>d' anchor label. BentEdge b d' anchor label a \<in> set es \<longrightarrow> d' = d1"
    using rec2 sym d(1) by metis
  ultimately show ?thesis using run by blast
qed

theorem mutual_pair_same_bend_witness:
  "distinct (parseStates ''q1, q2'')
   \<and> ''q1'' \<in> set (parseStates ''q1, q2'') \<and> ''q2'' \<in> set (parseStates ''q1, q2'')
   \<and> ''q1'' \<noteq> ''q2''
   \<and> checkTransition (createTransitions ''q1,0,q2; q2,0,q1'') ''q1'' ''q2'' \<noteq> None
   \<and> checkTransition (createTransitions ''q1,0,q2; q2,0,q1'') ''q2'' ''q1'' \<noteq> None
   \<and> (\<exists>es d. generateEdges (createTransitions ''q1,0,q2; q2,0,q1'')
                  [[Some ''q1'', Some ''q2'']] ''roman'' (parseStates ''q1, q2'') = Inr es
     \<and> (d = ''left'' \<or> d = ''right'')
     \<and> (\<exists>anchor label. BentEdge ''q1'' d anchor label ''q2'' \<in> set es)
     \<and> (\<exists>anchor label. BentEdge ''q2'' d anchor label ''q1'' \<in> set es))"
proof -
  let ?S = "parseStates ''q1, q2''"
  let ?T = "createTransitions ''q1,0,q2; q2,0,q1''"
  have h1: "distinct ?S" by code_simp
  have h2: "''q1'' \<in> set ?S" by code_simp
  have h3: "''q2'' \<in> set ?S" by code_simp
  have h4: "''q1'' \<noteq> ''q2''" by simp
  have h5: "checkTransition ?T ''q1'' ''q2'' \<noteq> None" by code_simp
  have h6: "checkTransition ?T ''q2'' ''q1'' \<noteq> None" by code_simp
  from mutual_pair_same_bend[OF h1 h2 h3 h4 h5 h6, of "[[Some ''q1'', Some ''q2'']]" "''roman''"]
  obtain es d where "generateEdges ?T [[Some ''q1'', Some ''q2'']] ''roman'' ?S = Inr es"
    "d = ''left'' \<or> d = ''right''"
    "\<exists>anchor label. BentEdge ''q1'' d anchor label ''q2'' \<in> set es"
    "\<exists>anchor label. BentEdge ''q2'' d anchor label ''q1'' \<in> set es"
    by blast
  with h1 h2 h3 h4 h5 h6 show ?thesis by blast
qed

text \<open>
  Counterexample to C6 as stated: for the two-cycle \<open>q1,0,q2; q2,0,q1\<close> both bent
  declarations carry \<open>bend left\<close>; neither carries \<open>bend right\<close>.
\<close>

theorem two_cycle_both_bend_left:
  "generate ''q1, q2'' ''q1'' ''q2'' ''q1,0,q2; q2,0,q1'' ''accepting by double'' ''roman'' ''left''
   = Inr ([Node ''q1'' '', initial left'' Unanchored, Node ''q2'' '', accepting'' (RightOf ''q1'')],
          [BentEdge ''q1'' ''left'' ''above'' ''0'' ''q2'',
           BentEdge ''q2'' ''left'' ''above'' ''0'' ''q1''])"
  by code_simp

text \<open>
  C7 (amended). The label of every emitted declaration, loop, straight or bent, from
  \<open>a\<close> to \<open>b\<close> is built from the symbol keys of \<open>a\<close> whose destinations include \<open>b\<close>:
  the keys are split at commas, the symbols sorted, each formatted in the selected
  style, and joined with a comma and a space. Nothing is de-duplicated: a symbol that
  occurs in two different keys of the pair occurs twice in the label. (Two identical
  records share one key, which \<open>checkTransition\<close> collects once.)
\<close>

theorem edge_label_sorted_symbols:
  assumes run: "generateEdges t grid style states = Inr es" and e: "e \<in> set es"
  shows "edgeText e =
           joinWith '', '' (map (\<lambda>symbol. formatSymbol symbol style)
             (sort (concat (map (splitOn CHR '','')
                (symbolKeys t (edgeSource e) (edgeTarget e))))))
         \<and> checkTransition t (edgeSource e) (edgeTarget e)
             = Some (sort (concat (map (splitOn CHR '','')
                  (symbolKeys t (edgeSource e) (edgeTarget e)))))"
proof -
  from generateEdges_erased[of t grid style states] run
  have er: "map eraseBend es =
       concat (map (\<lambda>ij. plainEdge t grid style (states ! fst ij) (states ! snd ij))
                   (statePairs (length states)))"
    by simp
  from e have "eraseBend e \<in> set (map eraseBend es)" by simp
  with er obtain ij where "eraseBend e \<in> set (plainEdge t grid style (states ! fst ij) (states ! snd ij))"
    by auto
  from plainEdge_fields[OF this]
  obtain symbols where "checkTransition t (edgeSource e) (edgeTarget e) = Some symbols"
    and "edgeText e = edgeLabel style symbols"
    by (auto simp: eraseBend_fields)
  then show ?thesis
    by (auto simp: checkTransition_symbolKeys edgeLabel_def split: if_splits)
qed

theorem edge_label_sorted_symbols_witness:
  "generateEdges (createTransitions ''q1,0,q2; q1,0,1,q2'') [[Some ''q1'', Some ''q2'']]
       ''roman'' (parseStates ''q1, q2'')
     = Inr [StraightEdge ''q1'' ''0, 0, 1'' ''q2'']
   \<and> StraightEdge ''q1'' ''0, 0, 1'' ''q2'' \<in> set [StraightEdge ''q1'' ''0, 0, 1'' ''q2'']
   \<and> symbolKeys (createTransitions ''q1,0,q2; q1,0,1,q2'') ''q1'' ''q2'' = [''0'', ''0,1'']
   \<and> ''0, 0, 1'' =
        joinWith '', '' (map (\<lambda>symbol. formatSymbol symbol ''roman'')
          (sort (concat (map (splitOn CHR '','')
             (symbolKeys (createTransitions ''q1,0,q2; q1,0,1,q2'') ''q1'' ''q2'')))))"
proof -
  let ?T = "createTransitions ''q1,0,q2; q1,0,1,q2''"
  have h1: "generateEdges ?T [[Some ''q1'', Some ''q2'']] ''roman'' (parseStates ''q1, q2'')
            = Inr [StraightEdge ''q1'' ''0, 0, 1'' ''q2'']"
    by code_simp
  have h2: "StraightEdge ''q1'' ''0, 0, 1'' ''q2'' \<in> set [StraightEdge ''q1'' ''0, 0, 1'' ''q2'']"
    by simp
  have h3: "symbolKeys ?T ''q1'' ''q2'' = [''0'', ''0,1'']" by code_simp
  from edge_label_sorted_symbols[OF h1 h2] h1 h2 h3 show ?thesis by simp
qed

text \<open>
  Counterexample to C7 as stated: the records \<open>q1,0,q2\<close> and \<open>q1,0,1,q2\<close> declare the
  symbol \<open>0\<close> twice for the pair (q1, q2); the label of the emitted edge is \<open>0, 0, 1\<close>.
\<close>

theorem repeated_symbol_labelled_twice:
  "generate ''q1, q2'' ''q1'' ''q2'' ''q1,0,q2; q1,0,1,q2'' ''accepting by double'' ''roman'' ''left''
   = Inr ([Node ''q1'' '', initial left'' Unanchored, Node ''q2'' '', accepting'' (RightOf ''q1'')],
          [StraightEdge ''q1'' ''0, 0, 1'' ''q2''])"
  by code_simp

text \<open>
  C8 (amended). For states \<open>q1\<close>, initial \<open>q1\<close>, accepting \<open>q1\<close> and transitions
  \<open>q1,0,1,q1\<close>, whatever the style parameters: the winning grid is \<open>[[q1]]\<close>; one node and
  exactly one edge declaration are emitted, the edge a self-loop whose label is the
  sorted symbols \<open>0\<close> and \<open>1\<close>, each formatted, joined with a comma and a space; the
  loop side is \<open>above\<close>, the first free direction of the cell in row 0.
\<close>

theorem single_state_loop_above:
  "layoutOf ''q1'' ''q1'' ''q1'' ''q1,0,1,q1'' acceptingBy = [[Some ''q1'']]
   \<and> generate ''q1'' ''q1'' ''q1'' ''q1,0,1,q1'' acceptingBy symbolsStyle initialWhere
       = Inr ([Node ''q1'' (stateTypeOf ''q1'' initialWhere [''q1''] ''q1'') Unanchored],
              [LoopEdge ''q1'' ''above'' (edgeLabel symbolsStyle [''0'', ''1''])])"
proof -
  let ?T = "[(''q1'', [(''0,1'', [''q1''])])]"
  have ps: "parseStates ''q1'' = [''q1'']" by code_simp
  have pa: "parseAccepting ''q1'' = [''q1'']" by code_simp
  have ct: "createTransitions ''q1,0,1,q1'' = ?T" by code_simp
  have t1: "findOptimalStatePlacement [''q1''] ''q1'' [''q1''] ?T True = [[Some ''q1'']]" by code_simp
  have t2: "findOptimalStatePlacement [''q1''] ''q1'' [''q1''] ?T False = [[Some ''q1'']]" by code_simp
  have lay: "findOptimalStatePlacement [''q1''] ''q1'' [''q1''] ?T flag = [[Some ''q1'']]" for flag
    by (cases flag) (simp_all add: t1 t2)
  have ck: "checkTransition ?T ''q1'' ''q1'' = Some [''0'', ''1'']" by code_simp
  have ge: "getEdge [[Some ''q1'']] ''q1'' = Some ''above''" by code_simp
  have sp: "statePairs (length [''q1'']) = [(0, 0)]" by code_simp
  have es: "generateEdges ?T [[Some ''q1'']] symbolsStyle [''q1'']
            = Inr [LoopEdge ''q1'' ''above'' (edgeLabel symbolsStyle [''0'', ''1''])]"
    unfolding generateEdges_def edgeLoop_def sp
    by (simp add: edgeStep_def Let_def ck ge)
  have ns: "generateNodes ''q1'' initialWhere [''q1''] [[Some ''q1'']]
            = [Node ''q1'' (stateTypeOf ''q1'' initialWhere [''q1''] ''q1'') Unanchored]"
    by (simp add: generateNodes_def rowNodes_def nodeStep_def Let_def)
  show ?thesis
    by (simp add: layoutOf_def generate_def Let_def ps pa ct lay es ns)
qed

text \<open>
  Counterexample to C8 as stated: with the symbols left unformatted, the declaration is
  a loop \<open>above\<close> labelled \<open>0, 1\<close>, not a loop \<open>below\<close>.
\<close>

theorem single_state_loop_not_below:
  "generate ''q1'' ''q1'' ''q1'' ''q1,0,1,q1'' ''accepting by double'' ''roman'' ''left''
   = Inr ([Node ''q1'' '', initial left, accepting'' Unanchored],
          [LoopEdge ''q1'' ''above'' ''0, 1''])"
  by code_simp

text \<open>
  C10. When the layout search returns the empty grid (as it does when the initial state
  is not in the state list: lemma \<open>unlisted_initial_no_layout\<close>), \<open>generate\<close> ends
  without error
  and emits no node declaration; it still emits, in the order of the nested loop over
  the state list, one declaration for every ordered pair of entries with a transition,
  naming nodes that no declaration introduced:
  a loop on side \<open>below\<close> for a self-transition, a straight edge for a one-way
  connection, and a bent edge (\<open>bend left\<close>, label anchor \<open>below\<close>) for a mutual one.
\<close>

theorem empty_layout_emits_edges_only:
  assumes "layoutOf states initialState acceptingStates transitions acceptingBy = []"
  shows "generate states initialState acceptingStates transitions acceptingBy symbolsStyle initialWhere
         = Inr ([], concat (map (\<lambda>ij. unplacedEdge (createTransitions transitions) symbolsStyle
                                        (parseStates states ! fst ij) (parseStates states ! snd ij))
                                (statePairs (length (parseStates states)))))"
proof -
  from assms have g: "findOptimalStatePlacement (parseStates states) initialState
      (parseAccepting acceptingStates) (createTransitions transitions)
      (acceptingBy = ''accepting by arrow'') = []"
    by (simp add: layoutOf_def)
  show ?thesis
    by (simp add: generate_def Let_def g generateEdges_unplaced generateNodes_def)
qed

theorem empty_layout_emits_edges_only_witness:
  "layoutOf ''q1, q2'' ''q0'' ''q2'' ''q1,0,q2; q2,0,q1; q1,1,q1'' ''accepting by double'' = []
   \<and> generate ''q1, q2'' ''q0'' ''q2'' ''q1,0,q2; q2,0,q1; q1,1,q1'' ''accepting by double''
        ''roman'' ''left''
      = Inr ([], [LoopEdge ''q1'' ''below'' ''1'',
                  BentEdge ''q1'' ''left'' ''below'' ''0'' ''q2'',
                  BentEdge ''q2'' ''left'' ''below'' ''0'' ''q1''])"
proof -
  have h: "layoutOf ''q1, q2'' ''q0'' ''q2'' ''q1,0,q2; q2,0,q1; q1,1,q1'' ''accepting by double'' = []"
    by code_simp
  have r: "concat (map (\<lambda>ij. unplacedEdge (createTransitions ''q1,0,q2; q2,0,q1; q1,1,q1'') ''roman''
                          (parseStates ''q1, q2'' ! fst ij) (parseStates ''q1, q2'' ! snd ij))
                       (statePairs (length (parseStates ''q1, q2''))))
           = [LoopEdge ''q1'' ''below'' ''1'',
              BentEdge ''q1'' ''left'' ''below'' ''0'' ''q2'',
              BentEdge ''q2'' ''left'' ''below'' ''0'' ''q1'']"
    by code_simp
  from empty_layout_emits_edges_only[OF h, of "''roman''" "''left''"] h r show ?thesis by simp
qed


end
